theory Spec2Isabelle
  imports Complex_Main "HOL-Library.Sublist" "HOL-Library.Multiset"
begin

section \<open>JavaScript numbers as the timeline script uses them\<close>

text \<open>
  The script computes with years, months and month indices.  A JavaScript number is
  modelled as an integer or \<open>NaN\<close>; the arithmetic below propagates \<open>NaN\<close> as the language
  does, every comparison with \<open>NaN\<close> is false, and \<open>Math.min\<close>/\<open>Math.max\<close> return \<open>NaN\<close>
  as soon as one argument is \<open>NaN\<close>.  Doubles are exact on the integers that occur here.
\<close>

datatype jsnum = NaN | Num int

fun js_sub :: "jsnum \<Rightarrow> jsnum \<Rightarrow> jsnum" where
  "js_sub (Num a) (Num b) = Num (a - b)"
| "js_sub _ _ = NaN"

fun js_add :: "jsnum \<Rightarrow> jsnum \<Rightarrow> jsnum" where
  "js_add (Num a) (Num b) = Num (a + b)"
| "js_add _ _ = NaN"

fun js_mul :: "jsnum \<Rightarrow> jsnum \<Rightarrow> jsnum" where
  "js_mul (Num a) (Num b) = Num (a * b)"
| "js_mul _ _ = NaN"

fun js_gt :: "jsnum \<Rightarrow> jsnum \<Rightarrow> bool" where
  "js_gt (Num a) (Num b) = (a > b)"
| "js_gt _ _ = False"

fun js_le :: "jsnum \<Rightarrow> jsnum \<Rightarrow> bool" where
  "js_le (Num a) (Num b) = (a \<le> b)"
| "js_le _ _ = False"

fun js_min :: "jsnum \<Rightarrow> jsnum \<Rightarrow> jsnum" where
  "js_min (Num a) (Num b) = Num (min a b)"
| "js_min _ _ = NaN"

fun js_max :: "jsnum \<Rightarrow> jsnum \<Rightarrow> jsnum" where
  "js_max (Num a) (Num b) = Num (max a b)"
| "js_max _ _ = NaN"

text \<open>\<open>a || b\<close> on numbers: \<open>0\<close> and \<open>NaN\<close> are falsy.\<close>

fun js_or :: "jsnum \<Rightarrow> jsnum \<Rightarrow> jsnum" where
  "js_or NaN b = b"
| "js_or (Num a) b = (if a = 0 then b else Num a)"

section \<open>parseDate\<close>

text \<open>\<open>s.split("-")\<close>: the pieces between the dashes; the empty string gives one empty piece.\<close>

fun split_dash :: "string \<Rightarrow> string list" where
  "split_dash [] = [[]]"
| "split_dash (c # cs) =
     (if c = CHR ''-'' then [] # split_dash cs
      else (case split_dash cs of
              [] \<Rightarrow> [[c]]
            | p # ps \<Rightarrow> (c # p) # ps))"

text \<open>
  \<open>Number(piece)\<close> on a string, as the language defines it.  White space around the
  numeral is dropped (the language's white space and line terminators, here in UTF-8);
  the empty string is \<open>0\<close>; a numeral is a decimal literal (digits with an optional
  fraction and an optional exponent, or \<open>Infinity\<close>, with an optional sign) or an unsigned
  integer with a radix prefix \<open>0x\<close>, \<open>0o\<close> or \<open>0b\<close>; everything else is \<open>NaN\<close>.  The value of
  a numeral is the double nearest to its mathematical value, ties to the even mantissa
  (an engine may first round a literal of more than 20 significant digits to 20).
  A double is kept as the rational it denotes; the two infinities are one value, since
  the sign of an infinity makes no difference to the date built from it, and so are the
  two zeros.
\<close>

datatype jsdouble = DNaN | DInf | DNum rat

definition whiteSpaces :: "string list" where
  "whiteSpaces =
     [[CHR 0x09], [CHR 0x0A], [CHR 0x0B], [CHR 0x0C], [CHR 0x0D], [CHR 0x20],
      [CHR 0xC2, CHR 0xA0], [CHR 0xE1, CHR 0x9A, CHR 0x80],
      [CHR 0xE2, CHR 0x80, CHR 0x80], [CHR 0xE2, CHR 0x80, CHR 0x81],
      [CHR 0xE2, CHR 0x80, CHR 0x82], [CHR 0xE2, CHR 0x80, CHR 0x83],
      [CHR 0xE2, CHR 0x80, CHR 0x84], [CHR 0xE2, CHR 0x80, CHR 0x85],
      [CHR 0xE2, CHR 0x80, CHR 0x86], [CHR 0xE2, CHR 0x80, CHR 0x87],
      [CHR 0xE2, CHR 0x80, CHR 0x88], [CHR 0xE2, CHR 0x80, CHR 0x89],
      [CHR 0xE2, CHR 0x80, CHR 0x8A], [CHR 0xE2, CHR 0x80, CHR 0xA8],
      [CHR 0xE2, CHR 0x80, CHR 0xA9], [CHR 0xE2, CHR 0x80, CHR 0xAF],
      [CHR 0xE2, CHR 0x81, CHR 0x9F], [CHR 0xE3, CHR 0x80, CHR 0x80],
      [CHR 0xEF, CHR 0xBB, CHR 0xBF]]"

definition wsAtHead :: "string \<Rightarrow> nat" where
  "wsAtHead s = (case filter (\<lambda>w. prefix w s) whiteSpaces of [] \<Rightarrow> 0 | w # _ \<Rightarrow> length w)"

definition wsAtEnd :: "string \<Rightarrow> nat" where
  "wsAtEnd s = (case filter (\<lambda>w. suffix w s) whiteSpaces of [] \<Rightarrow> 0 | w # _ \<Rightarrow> length w)"

text \<open>
  Dropping white space from either end, one character at a time; the first argument
  bounds the number of characters dropped and is the length of the string.
\<close>

fun stripHead :: "nat \<Rightarrow> string \<Rightarrow> string" where
  "stripHead 0 s = s"
| "stripHead (Suc n) s = (if wsAtHead s = 0 then s else stripHead n (drop (wsAtHead s) s))"

fun stripEnd :: "nat \<Rightarrow> string \<Rightarrow> string" where
  "stripEnd 0 s = s"
| "stripEnd (Suc n) s =
     (if wsAtEnd s = 0 then s else stripEnd n (take (length s - wsAtEnd s) s))"

definition trim :: "string \<Rightarrow> string" where
  "trim s = stripEnd (length s) (stripHead (length s) s)"

definition is_digit :: "char \<Rightarrow> bool" where
  "is_digit c = (48 \<le> (of_char c :: nat) \<and> (of_char c :: nat) \<le> 57)"

text \<open>The value of a digit in a radix up to 16; 16 for a character that is no digit.\<close>

definition digitOf :: "char \<Rightarrow> int" where
  "digitOf c =
     (let n = (of_char c :: int)
      in if 48 \<le> n \<and> n \<le> 57 then n - 48
         else if 97 \<le> n \<and> n \<le> 102 then n - 87
         else if 65 \<le> n \<and> n \<le> 70 then n - 55
         else 16)"

definition digitsVal :: "int \<Rightarrow> string \<Rightarrow> int" where
  "digitsVal radix ds = foldl (\<lambda>acc c. acc * radix + digitOf c) 0 ds"

definition allDigits :: "int \<Rightarrow> string \<Rightarrow> bool" where
  "allDigits radix ds = (ds \<noteq> [] \<and> list_all (\<lambda>c. digitOf c < radix) ds)"

text \<open>An unsigned integer with a radix prefix: its value, when the string is one.\<close>

definition nonDecimal :: "string \<Rightarrow> int option" where
  "nonDecimal t =
     (case t of
        z # x # ds \<Rightarrow>
          (if z \<noteq> CHR ''0'' then None
           else if (x = CHR ''x'' \<or> x = CHR ''X'') \<and> allDigits 16 ds then Some (digitsVal 16 ds)
           else if (x = CHR ''o'' \<or> x = CHR ''O'') \<and> allDigits 8 ds then Some (digitsVal 8 ds)
           else if (x = CHR ''b'' \<or> x = CHR ''B'') \<and> allDigits 2 ds then Some (digitsVal 2 ds)
           else None)
      | _ \<Rightarrow> None)"

text \<open>
  An unsigned decimal literal: digits, an optional fraction, an optional exponent, with
  a digit before or after the point.  The result is the integer its digits spell and
  the power of ten to multiply it with.
\<close>

definition exponentPart :: "string \<Rightarrow> int option" where
  "exponentPart r =
     (case r of
        [] \<Rightarrow> Some 0
      | c # cs \<Rightarrow>
          (if c = CHR ''e'' \<or> c = CHR ''E'' then
             (case cs of
                [] \<Rightarrow> None
              | s # ds \<Rightarrow>
                  (if s = CHR ''+'' then (if allDigits 10 ds then Some (digitsVal 10 ds) else None)
                   else if s = CHR ''-'' then (if allDigits 10 ds then Some (- digitsVal 10 ds) else None)
                   else if allDigits 10 cs then Some (digitsVal 10 cs)
                   else None))
           else None))"

definition decimalLiteral :: "string \<Rightarrow> (int \<times> int) option" where
  "decimalLiteral u =
     (let ip = takeWhile is_digit u;
          r1 = dropWhile is_digit u;
          pointed = (r1 \<noteq> [] \<and> hd r1 = CHR ''.'');
          fp = (if pointed then takeWhile is_digit (tl r1) else []);
          r2 = (if pointed then dropWhile is_digit (tl r1) else r1)
      in if ip = [] \<and> fp = [] then None
         else (case exponentPart r2 of
                 None \<Rightarrow> None
               | Some k \<Rightarrow> Some (digitsVal 10 (ip @ fp), k - int (length fp))))"

text \<open>Rounding a rational to the nearest double: powers, binary length, rounding to even.\<close>

definition pow2 :: "int \<Rightarrow> rat" where
  "pow2 k = (if 0 \<le> k then 2 ^ nat k else 1 / 2 ^ nat (- k))"

definition pow10 :: "int \<Rightarrow> rat" where
  "pow10 k = (if 0 \<le> k then 10 ^ nat k else 1 / 10 ^ nat (- k))"

function bits :: "int \<Rightarrow> int" where
  "bits n = (if n \<le> 0 then 0 else 1 + bits (n div 2))"
  by pat_completeness auto
termination
  by (relation "measure nat") auto

declare bits.simps [simp del]

text \<open>
  \<open>bits n\<close> is the length of \<open>n\<close> in binary.  For a positive rational \<open>q\<close>, \<open>ilog2 q\<close> is the
  integer \<open>e\<close> with \<open>2 ^ e \<le> q < 2 ^ (e + 1)\<close>.
\<close>

definition ilog2 :: "rat \<Rightarrow> int" where
  "ilog2 q =
     (case quotient_of q of
        (a, b) \<Rightarrow>
          (let e0 = bits a - bits b
           in if pow2 e0 \<le> q then e0 else e0 - 1))"

definition roundEven :: "rat \<Rightarrow> int" where
  "roundEven q =
     (let f = \<lfloor>q\<rfloor>; r = q - of_int f
      in if r < 1 / 2 then f else if 1 / 2 < r then f + 1 else if even f then f else f + 1)"

text \<open>
  An integer of magnitude up to \<open>2 ^ 53\<close> is a double and needs no rounding.  Any other
  value is rounded at the position of the last of its 53 leading bits, or at
  \<open>2 ^ - 1074\<close>, the spacing of the smallest doubles; what rounds up to \<open>2 ^ 1024\<close> is
  an infinity.
\<close>

definition toDouble :: "rat \<Rightarrow> jsdouble" where
  "toDouble q =
     (if of_int \<lfloor>q\<rfloor> = q \<and> abs q \<le> 9007199254740992 then DNum q
      else
        (let a = abs q;
             p = max (ilog2 a - 52) (- 1074);
             v = of_int (roundEven (a / pow2 p)) * pow2 p
         in if 2 ^ 1024 \<le> v then DInf else DNum (if q < 0 then - v else v)))"

definition toNumber :: "string \<Rightarrow> jsdouble" where
  "toNumber s =
     (let t = trim s
      in if t = [] then DNum 0
         else
           (case nonDecimal t of
              Some n \<Rightarrow> toDouble (of_int n)
            | None \<Rightarrow>
                (let neg = (hd t = CHR ''-'');
                     u = (if hd t = CHR ''+'' \<or> hd t = CHR ''-'' then tl t else t)
                 in if u = ''Infinity'' then DInf
                    else
                      (case decimalLiteral u of
                         None \<Rightarrow> DNaN
                       | Some (m, k) \<Rightarrow>
                           toDouble ((if neg then - 1 else 1) * of_int m * pow10 k)))))"

text \<open>
  The three operations \<open>parseDate\<close> applies to these numbers: \<open>m - 1\<close>, rounded as every
  double operation is; \<open>d || 1\<close>, where \<open>0\<close> and \<open>NaN\<close> are falsy; and the conversion to an
  integer that \<open>new Date\<close> applies to each argument, truncating towards zero, after which
  an infinity makes the date invalid as \<open>NaN\<close> does.
\<close>

definition minusOne :: "jsdouble \<Rightarrow> jsdouble" where
  "minusOne x = (case x of DNum q \<Rightarrow> toDouble (q - 1) | DInf \<Rightarrow> DInf | DNaN \<Rightarrow> DNaN)"

definition orOne :: "jsdouble \<Rightarrow> jsdouble" where
  "orOne x = (case x of DNum q \<Rightarrow> (if q = 0 then DNum 1 else DNum q) | DInf \<Rightarrow> DInf | DNaN \<Rightarrow> DNum 1)"

definition toInteger :: "jsdouble \<Rightarrow> jsnum" where
  "toInteger x =
     (case x of
        DNum q \<Rightarrow> Num (if 0 \<le> q then \<lfloor>q\<rfloor> else - \<lfloor>- q\<rfloor>)
      | DInf \<Rightarrow> NaN
      | DNaN \<Rightarrow> NaN)"

text \<open>
  \<open>new Date(y, m, d)\<close> with local midnight, on arguments already converted to integers,
  and the two getters the script calls.  A date is kept as its day number (days since
  1 January 1970); an invalid date is its own value.  As in the language: an argument
  that is no finite number gives an invalid date, a year from 0 to 99
  means 1900 + year, months outside 0..11 carry into the year, days outside the month
  carry into the neighbouring months, and a date more than 100 000 000 days from the
  epoch is invalid (the local time zone moves that bound by less than a day).
\<close>

datatype jsdate = InvalidDate | DateDay int

definition days_from_civil :: "int \<Rightarrow> int \<Rightarrow> int" where
  \<comment> \<open>day number of the first day of month \<open>mn\<close> (0..11) of year \<open>yr\<close>\<close>
  "days_from_civil yr mn =
     (let y = (if mn < 2 then yr - 1 else yr);
          era = y div 400;
          yoe = y - era * 400;
          mp = (if mn < 2 then mn + 10 else mn - 2);
          doy = (153 * mp + 2) div 5;
          doe = yoe * 365 + yoe div 4 - yoe div 100 + doy
      in era * 146097 + doe - 719468)"

definition civil_from_days :: "int \<Rightarrow> int \<times> int" where
  \<comment> \<open>year and month (0..11) of a day number\<close>
  "civil_from_days z0 =
     (let z = z0 + 719468;
          era = z div 146097;
          doe = z - era * 146097;
          yoe = (doe - doe div 1460 + doe div 36524 - doe div 146096) div 365;
          doy = doe - (365 * yoe + yoe div 4 - yoe div 100);
          mp = (5 * doy + 2) div 153;
          mn = (if mp < 10 then mp + 2 else mp - 10)
      in (yoe + era * 400 + (if mn < 2 then 1 else 0), mn))"

fun newDate :: "jsnum \<Rightarrow> jsnum \<Rightarrow> jsnum \<Rightarrow> jsdate" where
  "newDate (Num y) (Num m) (Num d) =
     (let yr = (if 0 \<le> y \<and> y \<le> 99 then 1900 + y else y);
          day = days_from_civil (yr + m div 12) (m mod 12) + d - 1
      in if abs day \<le> 100000000 then DateDay day else InvalidDate)"
| "newDate _ _ _ = InvalidDate"

fun getFullYear :: "jsdate \<Rightarrow> jsnum" where
  "getFullYear InvalidDate = NaN"
| "getFullYear (DateDay z) = Num (fst (civil_from_days z))"

fun getMonth :: "jsdate \<Rightarrow> jsnum" where
  "getMonth InvalidDate = NaN"
| "getMonth (DateDay z) = Num (snd (civil_from_days z))"

text \<open>
  \<open>const [y, m, d] = s.split("-").map(Number)\<close>: a missing piece is \<open>undefined\<close>, and
  \<open>undefined - 1\<close> is \<open>NaN\<close> while \<open>undefined || 1\<close> is \<open>1\<close>, exactly as for \<open>NaN\<close>; so a
  missing piece is read as \<open>NaN\<close>.
\<close>

definition piece :: "jsdouble list \<Rightarrow> nat \<Rightarrow> jsdouble" where
  "piece ns i = (if i < length ns then ns ! i else DNaN)"

definition parseDate :: "string \<Rightarrow> jsdate" where
  "parseDate s =
     (let ns = map toNumber (split_dash s);
          y = piece ns 0; m = piece ns 1; d = piece ns 2
      in newDate (toInteger y) (toInteger (minusOne m)) (toInteger (orOne d)))"

definition monthIndex :: "jsdate \<Rightarrow> jsnum \<Rightarrow> jsnum" where
  "monthIndex d startYear = js_add (js_mul (js_sub (getFullYear d) startYear) (Num 12)) (getMonth d)"

section \<open>The payload's records\<close>

text \<open>
  One entry of \<open>selected.cargos\<close>.  The fields are the strings the page's JSON payload
  carries; \<open>temas\<close> is the list after \<open>Array.isArray(it.temas) ? it.temas : []\<close>.
\<close>

record item =
  inicio :: string
  fin :: string
  nivel :: string
  label :: string
  persona :: string
  institucion :: string
  temas :: "string list"

section \<open>stackOverlaps\<close>

text \<open>
  The object \<open>{ ...it, _start, _end }\<close> that \<open>map\<close> builds; \<open>_row\<close> is absent until the
  placement loop writes it.
\<close>

record seg =
  seg_it :: item
  seg_start :: jsnum
  seg_end :: jsnum
  seg_row :: "nat option"

definition toSeg :: "jsnum \<Rightarrow> item \<Rightarrow> seg" where
  "toSeg startYear it =
     \<lparr>seg_it = it,
      seg_start = monthIndex (parseDate (inicio it)) startYear,
      seg_end = monthIndex (parseDate (fin it)) startYear,
      seg_row = None\<rparr>"

text \<open>The comparator \<open>(a, b) => a._start - b._start || a._end - b._end\<close>.\<close>

definition cmpSeg :: "seg \<Rightarrow> seg \<Rightarrow> jsnum" where
  "cmpSeg a b = js_or (js_sub (seg_start a) (seg_start b)) (js_sub (seg_end a) (seg_end b))"

text \<open>
  \<open>Array.prototype.sort\<close> is stable, and a comparator result that is \<open>NaN\<close> counts as
  \<open>0\<close>.  For a comparator that is a consistent ordering the result is the one stable
  ordering, which insertion computes; that is the case whenever every \<open>_start\<close> and
  \<open>_end\<close> is a number.  When a date does not parse the comparator answers \<open>NaN\<close> for some
  pairs, and the language leaves the order to the engine: the model then still inserts,
  an engine may order such a list differently, and nothing below that is stated for
  such lists depends on the order.
\<close>

fun insort_cmp :: "('a \<Rightarrow> 'a \<Rightarrow> jsnum) \<Rightarrow> 'a \<Rightarrow> 'a list \<Rightarrow> 'a list" where
  "insort_cmp cmp x [] = [x]"
| "insort_cmp cmp x (y # ys) =
     (if js_gt (cmp x y) (Num 0) then y # insort_cmp cmp x ys else x # y # ys)"

definition js_sort :: "('a \<Rightarrow> 'a \<Rightarrow> jsnum) \<Rightarrow> 'a list \<Rightarrow> 'a list" where
  "js_sort cmp xs = foldr (insort_cmp cmp) xs []"

text \<open>
  The inner loop \<open>for (r = 0; r < rowsEnd.length; r++) if (it._start > rowsEnd[r]) ...\<close>:
  the first row whose end lies strictly before the start, if there is one.
\<close>

fun findRow :: "jsnum \<Rightarrow> jsnum list \<Rightarrow> nat option" where
  "findRow s [] = None"
| "findRow s (e # es) = (if js_gt s e then Some 0 else map_option Suc (findRow s es))"

text \<open>
  The outer loop over the sorted segments, threading \<open>rowsEnd\<close>: a segment goes to the row
  found and overwrites that row's end, or opens a new row at the end of the list.
\<close>

fun place :: "seg list \<Rightarrow> jsnum list \<Rightarrow> seg list \<times> jsnum list" where
  "place [] rowsEnd = ([], rowsEnd)"
| "place (it # rest) rowsEnd =
     (case findRow (seg_start it) rowsEnd of
        Some r \<Rightarrow>
          (case place rest (rowsEnd[r := seg_end it]) of
             (out, fin_rows) \<Rightarrow> (it\<lparr>seg_row := Some r\<rparr> # out, fin_rows))
      | None \<Rightarrow>
          (case place rest (rowsEnd @ [seg_end it]) of
             (out, fin_rows) \<Rightarrow> (it\<lparr>seg_row := Some (length rowsEnd)\<rparr> # out, fin_rows)))"

record stacked =
  segs :: "seg list"
  rowCount :: nat

definition stackOverlaps :: "item list \<Rightarrow> jsnum \<Rightarrow> stacked" where
  "stackOverlaps items startYear =
     (case place (js_sort cmpSeg (map (toSeg startYear) items)) [] of
        (out, rowsEnd) \<Rightarrow> \<lparr>segs = out, rowCount = length rowsEnd\<rparr>)"

section \<open>Grid width\<close>

definition MONTH_PX :: int where "MONTH_PX = 18"
definition LANE_BAR_H :: int where "LANE_BAR_H = 28"
definition STACK_GAP :: int where "STACK_GAP = 6"

definition totalMonths :: "jsnum \<Rightarrow> jsnum \<Rightarrow> jsnum" where
  "totalMonths startYear endYear = js_mul (js_add (js_sub endYear startYear) (Num 1)) (Num 12)"

text \<open>
  \<open>getMonthWidth\<close> reads the style property \<open>--month-width\<close>; its argument here is the
  result of \<open>parseFloat\<close> on that property, with \<open>NaN\<close> for every result that is not
  finite (the property is unset or not a number).  Pixel widths are integers in this
  model.
\<close>

definition getMonthWidth :: "jsnum \<Rightarrow> jsnum" where
  "getMonthWidth cssMonthWidth = (case cssMonthWidth of NaN \<Rightarrow> Num 18 | Num v \<Rightarrow> Num v)"

text \<open>The value \<open>w\<close> that \<open>setCanvasWidth\<close> writes to the canvas as its width in pixels.\<close>

definition setCanvasWidth :: "jsnum \<Rightarrow> jsnum \<Rightarrow> jsnum \<Rightarrow> jsnum" where
  "setCanvasWidth cssMonthWidth startYear endYear =
     js_add (js_mul (totalMonths startYear endYear) (getMonthWidth cssMonthWidth)) (Num 20)"

section \<open>Notions the properties are stated with\<close>

text \<open>
  A record is an interval when both its dates parse.  Two placed segments overlap when
  their closed month ranges \<open>[_start, _end]\<close> meet, touching at one month included; the
  comparisons are JavaScript's, so a \<open>NaN\<close> bound overlaps nothing.
\<close>

definition validDates :: "item \<Rightarrow> bool" where
  "validDates it = (parseDate (inicio it) \<noteq> InvalidDate \<and> parseDate (fin it) \<noteq> InvalidDate)"

definition overlaps :: "seg \<Rightarrow> seg \<Rightarrow> bool" where
  "overlaps a b = (js_le (seg_start a) (seg_end b) \<and> js_le (seg_start b) (seg_end a))"

text \<open>
  The overlap-counting oracle of the specification: the number of records whose closed
  month range contains the month index \<open>m\<close>.  It is written from the specification's
  words, on the input list, and knows nothing of rows.  A record is ordered when both
  dates parse and its start month is not after its end month.
\<close>

definition covers :: "seg \<Rightarrow> int \<Rightarrow> bool" where
  "covers s m = (js_le (seg_start s) (Num m) \<and> js_le (Num m) (seg_end s))"

definition openAt :: "item list \<Rightarrow> jsnum \<Rightarrow> int \<Rightarrow> nat" where
  "openAt items startYear m = length (filter (\<lambda>it. covers (toSeg startYear it) m) items)"

definition startNotAfterEnd :: "item \<Rightarrow> bool" where
  "startNotAfterEnd it =
     js_le (monthIndex (parseDate (inicio it)) (Num 0)) (monthIndex (parseDate (fin it)) (Num 0))"

text \<open>Notions used only in the proofs about the placement loop.\<close>

abbreviation byStart :: "seg \<Rightarrow> seg \<Rightarrow> bool" where
  "byStart \<equiv> (\<lambda>a b. js_le (seg_start a) (seg_start b))"

definition numeric :: "seg \<Rightarrow> bool" where
  "numeric s = (seg_start s \<noteq> NaN \<and> seg_end s \<noteq> NaN)"

definition ordered :: "seg \<Rightarrow> bool" where
  "ordered s = js_le (seg_start s) (seg_end s)"

definition depth :: "seg list \<Rightarrow> int \<Rightarrow> nat" where
  "depth ss m = length (filter (\<lambda>s. covers s m) ss)"

definition span :: "seg \<Rightarrow> jsnum \<times> jsnum" where
  "span s = (seg_start s, seg_end s)"

text \<open>
  \<open>rowsEnd\<close> tracks the placed segments: each open row's entry is the end of a segment
  already placed in that row.
\<close>

definition rowsTrack :: "seg list \<Rightarrow> jsnum list \<Rightarrow> bool" where
  "rowsTrack prev re = (\<forall>r<length re. \<exists>x\<in>set prev. seg_row x = Some r \<and> seg_end x = re ! r)"

text \<open>Sample records for the worked instances: a record with the two dates given.\<close>

definition cargo :: "string \<Rightarrow> string \<Rightarrow> item" where
  "cargo a b =
     \<lparr>inicio = a, fin = b, nivel = ''federal'', label = ''Diputado'', persona = ''Ana'',
      institucion = ''Congreso'', temas = []\<rparr>"

definition threeTerms :: "item list" where
  "threeTerms =
     [cargo ''2005-01-01'' ''2006-12-01'', cargo ''2001-01-01'' ''2002-12-01'',
      cargo ''2003-01-01'' ''2004-12-01'']"

definition twoTerms :: "item list" where
  "twoTerms = [cargo ''2010-01-01'' ''2012-01-01'', cargo ''2011-01-01'' ''2013-01-01'']"

section \<open>Markup: escapeHtml, formatMY and the two templates\<close>

text \<open>
  Strings are byte lists in UTF-8.  \<open>escapeHtml\<close> replaces the five ASCII characters of
  its table and copies every other character; a character outside ASCII is a run of
  bytes none of which is one of the five, so working on bytes gives the bytes of the
  JavaScript result.
\<close>

definition escapeChar :: "char \<Rightarrow> string" where
  \<open>escapeChar c =
     (if c = CHR ''&'' then ''&amp;''
      else if c = CHR ''<'' then ''&lt;''
      else if c = CHR ''>'' then ''&gt;''
      else if c = CHR 0x22 then ''&quot;''
      else if c = CHR 0x27 then ''&#039;''
      else [c])\<close>

definition escapeHtml :: "string \<Rightarrow> string" where
  "escapeHtml s = concat (map escapeChar s)"

definition entities :: "string list" where
  \<open>entities = [''&amp;'', ''&lt;'', ''&gt;'', ''&quot;'', ''&#039;'']\<close>

text \<open>The characters that open or close a tag or an attribute value.\<close>

definition is_markup :: "char \<Rightarrow> bool" where
  \<open>is_markup c = (c = CHR ''<'' \<or> c = CHR ''>'' \<or> c = CHR 0x22 \<or> c = CHR 0x27)\<close>

text \<open>A number inside a template literal: its decimal digits, a leading \<open>-\<close>, or \<open>NaN\<close>.\<close>

fun show_nat :: "nat \<Rightarrow> string" where
  "show_nat n =
     (if n < 10 then [char_of (48 + n)] else show_nat (n div 10) @ [char_of (48 + n mod 10)])"

declare show_nat.simps [simp del]

definition show_num :: "jsnum \<Rightarrow> string" where
  "show_num x =
     (case x of
        NaN \<Rightarrow> ''NaN''
      | Num i \<Rightarrow> (if i < 0 then ''-'' @ show_nat (nat (- i)) else show_nat (nat i)))"

definition months :: "string list" where
  "months = [''ene'', ''feb'', ''mar'', ''abr'', ''may'', ''jun'', ''jul'', ''ago'', ''sep'',
             ''oct'', ''nov'', ''dic'']"

text \<open>\<open>months[d.getMonth()]\<close> inside a template literal: no such entry prints \<open>undefined\<close>.\<close>

definition monthName :: "jsnum \<Rightarrow> string" where
  "monthName x =
     (case x of
        NaN \<Rightarrow> ''undefined''
      | Num m \<Rightarrow> (if 0 \<le> m \<and> m < 12 then months ! nat m else ''undefined''))"

definition formatMY :: "string \<Rightarrow> string" where
  "formatMY s = (let d = parseDate s in monthName (getMonth d) @ '' '' @ show_num (getFullYear d))"

definition nl :: string where
  "nl = [CHR 0x0A]"

definition sp :: "nat \<Rightarrow> string" where
  "sp n = replicate n (CHR '' '')"

definition topicPill :: "string \<Rightarrow> string" where
  \<open>topicPill tema = ''<span class="tooltip-pill">'' @ escapeHtml tema @ ''</span>''\<close>

definition topicsHtml :: "string list \<Rightarrow> string" where
  \<open>topicsHtml tms =
     (if tms \<noteq> [] then
        nl @ sp 8 @ ''<div class="tooltip-topics">'' @
        nl @ sp 10 @ ''<div class="tooltip-topics-title">Temas</div>'' @
        nl @ sp 10 @ ''<div class="tooltip-meta">'' @
        nl @ sp 12 @ concat (map topicPill tms) @
        nl @ sp 10 @ ''</div>'' @
        nl @ sp 8 @ ''</div>'' @
        nl @ sp 6
      else
        nl @ sp 8 @ ''<div class="tooltip-topics">'' @
        nl @ sp 10 @ ''<div class="tooltip-topics-title">Temas</div>'' @
        nl @ sp 10 @ ''<div class="tooltip-empty">Sin temas vinculados</div>'' @
        nl @ sp 8 @ ''</div>'' @
        nl @ sp 6)\<close>

definition buildTooltipContent ::
  "string \<Rightarrow> string \<Rightarrow> string \<Rightarrow> string \<Rightarrow> string \<Rightarrow> string list \<Rightarrow> string" where
  \<open>buildTooltipContent title sub niv ini fi tms =
     nl @ sp 6 @ ''<div class="tooltip-title">'' @ escapeHtml title @ ''</div>'' @
     nl @ sp 6 @ ''<div class="tooltip-subtitle">'' @ escapeHtml sub @ ''</div>'' @
     nl @ sp 6 @ ''<div class="tooltip-meta">'' @
     nl @ sp 8 @ ''<span class="tooltip-pill">'' @ escapeHtml niv @ ''</span>'' @
     nl @ sp 8 @ ''<span class="tooltip-pill">'' @ formatMY ini @ '' '' @
       [CHR 0xE2, CHR 0x80, CHR 0x93] @ '' '' @ formatMY fi @ ''</span>'' @
     nl @ sp 6 @ ''</div>'' @
     nl @ sp 6 @ topicsHtml tms @
     nl @ sp 4\<close>

text \<open>The markup \<open>renderLane\<close> writes into a bar, for the mode and the segment.\<close>

definition barMain :: "string \<Rightarrow> item \<Rightarrow> string" where
  "barMain mode it = (if mode = ''persona'' then label it else persona it)"

definition barSub :: "string \<Rightarrow> item \<Rightarrow> string" where
  "barSub mode it =
     (if mode = ''persona'' then institucion it
      else label it @ '' '' @ [CHR 0xC2, CHR 0xB7] @ '' '' @ persona it)"

definition barHtml :: "string \<Rightarrow> item \<Rightarrow> string" where
  \<open>barHtml mode it =
     nl @ sp 8 @ ''<span class="bar-tag">'' @ escapeHtml (nivel it) @ ''</span>'' @
     nl @ sp 8 @ ''<div class="bar-text">'' @
     nl @ sp 10 @ ''<b title="'' @ escapeHtml (barMain mode it) @ ''">'' @
       escapeHtml (barMain mode it) @ ''</b>'' @
     nl @ sp 10 @ ''<span title="'' @ escapeHtml (barSub mode it) @ ''">'' @
       escapeHtml (barSub mode it) @ ''</span>'' @
     nl @ sp 8 @ ''</div>'' @
     nl @ sp 6\<close>

text \<open>What \<open>handleShow\<close> of a bar renders into the tooltip.\<close>

definition barTooltip :: "string \<Rightarrow> item \<Rightarrow> string" where
  "barTooltip mode it =
     buildTooltipContent
       (if mode = ''persona'' then label it else persona it)
       (if mode = ''persona'' then institucion it else label it)
       (nivel it) (inicio it) (fin it) (temas it)"

section \<open>renderLane\<close>

text \<open>
  One bar of a lane: the three style values in pixels, its markup, the tooltip markup
  its handlers show, and the segment it was made from.  The background colour and the
  two attributes of a bar are not part of this record.
\<close>

record bar =
  bar_left :: jsnum
  bar_top :: jsnum
  bar_width :: jsnum
  bar_html :: string
  bar_tip :: string
  bar_it :: seg

text \<open>\<open>it._row\<close> in arithmetic: an absent \<open>_row\<close> is \<open>undefined\<close>, which computes as \<open>NaN\<close>.\<close>

definition rowNum :: "nat option \<Rightarrow> jsnum" where
  "rowNum r = (case r of None \<Rightarrow> NaN | Some k \<Rightarrow> Num (int k))"

definition renderBar :: "string \<Rightarrow> seg \<Rightarrow> bar" where
  "renderBar mode it =
     (let startX = js_add (Num 10) (js_mul (seg_start it) (Num MONTH_PX));
          endX = js_add (Num 10) (js_mul (js_add (seg_end it) (Num 1)) (Num MONTH_PX));
          w = js_max (Num MONTH_PX) (js_sub (js_sub endX startX) (Num 2));
          y = js_add (Num 6) (js_mul (rowNum (seg_row it)) (Num (LANE_BAR_H + STACK_GAP)))
      in \<lparr>bar_left = startX, bar_top = y, bar_width = w,
          bar_html = barHtml mode (seg_it it), bar_tip = barTooltip mode (seg_it it),
          bar_it = it\<rparr>)"

record lane =
  lane_titleHtml :: string
  lane_minHeight :: int
  lane_bars :: "bar list"

definition renderLane :: "string \<Rightarrow> string \<Rightarrow> item list \<Rightarrow> string \<Rightarrow> jsnum \<Rightarrow> lane" where
  "renderLane title subtitle items mode startYear =
     (let st = stackOverlaps items startYear;
          neededH = max 90 (int (rowCount st) * (LANE_BAR_H + STACK_GAP) + 10)
      in \<lparr>lane_titleHtml = ''<strong>'' @ title @ ''</strong><small>'' @ subtitle @ ''</small>'',
          lane_minHeight = neededH,
          lane_bars = map (renderBar mode) (segs st)\<rparr>)"

section \<open>getTimelineBounds\<close>

definition START_YEAR_DEFAULT :: int where
  "START_YEAR_DEFAULT = 1997"

record bounds =
  startYear :: jsnum
  endYear :: jsnum

text \<open>
  \<open>END_YEAR_DEFAULT\<close> is \<open>new Date().getFullYear()\<close>, read once when the script starts: the
  current calendar year, a parameter here.
\<close>

definition getTimelineBounds :: "int \<Rightarrow> item list \<Rightarrow> bounds" where
  "getTimelineBounds END_YEAR_DEFAULT items =
     (if items = [] then \<lparr>startYear = Num START_YEAR_DEFAULT, endYear = Num END_YEAR_DEFAULT\<rparr>
      else
        (case foldl (\<lambda>(minYear, maxYear) it.
                       (js_min minYear (getFullYear (parseDate (inicio it))),
                        js_max maxYear (getFullYear (parseDate (fin it)))))
                    (Num END_YEAR_DEFAULT, Num START_YEAR_DEFAULT) items of
           (minYear, maxYear) \<Rightarrow>
             \<lparr>startYear = js_min (Num START_YEAR_DEFAULT) minYear,
              endYear = js_max (Num END_YEAR_DEFAULT) maxYear\<rparr>))"

section \<open>renderTimeline\<close>

definition scrollNearYear :: "jsnum \<Rightarrow> jsnum \<Rightarrow> jsnum \<Rightarrow> jsnum" where
  "scrollNearYear cssMonthWidth year sYear =
     (let idx = js_mul (js_sub year sYear) (Num 12)
      in js_max (Num 0) (js_sub (js_mul idx (getMonthWidth cssMonthWidth)) (Num 200)))"

text \<open>
  What one rendering pass leaves on the page: the bounds it stored, the canvas width,
  the empty-state message or the lane, and the scroll position when it sets one.  The
  pass is a function of the style property \<open>--month-width\<close>, the current year, the value
  of the entity type selector, and the \<open>cargos\<close> of the selected entity (\<open>None\<close> when no
  entity is selected).  The grid's lines and labels are not part of this record.
\<close>

record rendering =
  r_bounds :: bounds
  r_canvasWidth :: jsnum
  r_empty :: "string option"
  r_lane :: "lane option"
  r_scrollLeft :: "jsnum option"

definition renderTimeline :: "jsnum \<Rightarrow> int \<Rightarrow> string \<Rightarrow> item list option \<Rightarrow> rendering" where
  "renderTimeline cssMonthWidth END_YEAR_DEFAULT etype selected =
     (case selected of
        None \<Rightarrow>
          (let b = \<lparr>startYear = Num START_YEAR_DEFAULT, endYear = Num END_YEAR_DEFAULT\<rparr>
           in \<lparr>r_bounds = b,
               r_canvasWidth = setCanvasWidth cssMonthWidth (startYear b) (endYear b),
               r_empty = Some ''Selecciona una entidad para visualizar sus periodos.'',
               r_lane = None, r_scrollLeft = None\<rparr>)
      | Some items \<Rightarrow>
          (let b = getTimelineBounds END_YEAR_DEFAULT items;
               w = setCanvasWidth cssMonthWidth (startYear b) (endYear b)
           in if items = [] then
                \<lparr>r_bounds = b, r_canvasWidth = w,
                 r_empty = Some (''Esta entidad todav'' @ [CHR 0xC3, CHR 0xAD] @
                                 ''a no tiene cargos con fechas completas.''),
                 r_lane = None, r_scrollLeft = None\<rparr>
              else
                \<lparr>r_bounds = b, r_canvasWidth = w, r_empty = None,
                 r_lane = Some
                   (if etype = ''persona'' then
                      renderLane ''Cargos''
                        (''Barras = periodos de cargos '' @ [CHR 0xC2, CHR 0xB7] @ '' meses visibles'')
                        items ''persona'' (startYear b)
                    else
                      renderLane (''Ocupaci'' @ [CHR 0xC3, CHR 0xB3] @ ''n de cargos'')
                        (''Barras = personas en el tiempo '' @ [CHR 0xC2, CHR 0xB7] @
                         '' apilado si se empalman'')
                        items ''institucion'' (startYear b)),
                 r_scrollLeft = Some
                   (scrollNearYear cssMonthWidth (js_add (startYear b) (Num 10)) (startYear b))\<rparr>))"

text \<open>The year of a date string that parses, for stating what the bounds are.\<close>

definition yearOf :: "string \<Rightarrow> int" where
  "yearOf s = (case getFullYear (parseDate s) of Num y \<Rightarrow> y | NaN \<Rightarrow> 0)"

text \<open>The bars of a rendering pass: those of its lane, none when it drew the empty state.\<close>

definition laneBars :: "rendering \<Rightarrow> bar list" where
  "laneBars r = (case r_lane r of None \<Rightarrow> [] | Some l \<Rightarrow> lane_bars l)"

text \<open>
  The width formulas as the specification words them, to compare with what the script
  computes: the canvas width with a left padding of 10 added, and the bar width taken
  from the end month's right edge without the left padding.
\<close>

definition specCanvasWidth :: "int \<Rightarrow> int \<Rightarrow> int \<Rightarrow> int" where
  "specCanvasWidth sYear eYear monthWidthPx = 10 + ((eYear - sYear + 1) * 12) * monthWidthPx + 20"

definition specBarWidth :: "int \<Rightarrow> int \<Rightarrow> int \<Rightarrow> int" where
  "specBarWidth startMonthIndex endMonthIndex monthWidthPx =
     max monthWidthPx
       ((endMonthIndex + 1) * monthWidthPx - (10 + startMonthIndex * monthWidthPx) - 2)"

text \<open>A record whose start date is the empty string.\<close>

definition undatedCargo :: item where
  "undatedCargo = cargo [] ''2004-12-01''"

text \<open>A string that starts with one of the five entities.\<close>

definition entityAt :: "string \<Rightarrow> bool" where
  "entityAt t = list_ex (\<lambda>e. prefix e t) entities"

text \<open>
  The skeleton of a piece of markup: its tag and attribute delimiters, in order.  Two
  pieces with the same skeleton have the same elements and attributes and differ in
  text only.
\<close>

definition skeleton :: "string \<Rightarrow> string" where
  "skeleton h = filter is_markup h"

section \<open>A rendering pass on the payload as it arrives\<close>

text \<open>
  The payload need not give a record a start or an end date that is a string.
  \<open>parseDate\<close> calls \<open>s.split\<close> on the field, which raises a \<open>TypeError\<close> when the field
  is absent, \<open>null\<close> or any other value that is no string; the script catches nothing,
  so the error leaves the rendering pass.  A date field is \<open>Some\<close> string, or \<open>None\<close> for
  every value that is no string.
\<close>

datatype error = TypeError

record payloadCargo =
  p_inicio :: "string option"
  p_fin :: "string option"
  p_nivel :: string
  p_label :: string
  p_persona :: string
  p_institucion :: string
  p_temas :: "string list"

definition parseDateField :: "string option \<Rightarrow> error + jsdate" where
  "parseDateField v = (case v of None \<Rightarrow> Inl TypeError | Some s \<Rightarrow> Inr (parseDate s))"

text \<open>
  The \<open>forEach\<close> of \<open>getTimelineBounds\<close> on such records: it parses the start and then
  the end of each record in turn and stops at the first error.
\<close>

fun boundsLoop :: "payloadCargo list \<Rightarrow> jsnum \<times> jsnum \<Rightarrow> error + jsnum \<times> jsnum" where
  "boundsLoop [] acc = Inr acc"
| "boundsLoop (it # rest) (minYear, maxYear) =
     (case parseDateField (p_inicio it) of
        Inl e \<Rightarrow> Inl e
      | Inr s \<Rightarrow>
          (case parseDateField (p_fin it) of
             Inl e \<Rightarrow> Inl e
           | Inr f \<Rightarrow>
               boundsLoop rest (js_min minYear (getFullYear s), js_max maxYear (getFullYear f))))"

definition getTimelineBoundsOn :: "int \<Rightarrow> payloadCargo list \<Rightarrow> error + bounds" where
  "getTimelineBoundsOn END_YEAR_DEFAULT items =
     (if items = [] then Inr \<lparr>startYear = Num START_YEAR_DEFAULT, endYear = Num END_YEAR_DEFAULT\<rparr>
      else
        (case boundsLoop items (Num END_YEAR_DEFAULT, Num START_YEAR_DEFAULT) of
           Inl e \<Rightarrow> Inl e
         | Inr (minYear, maxYear) \<Rightarrow>
             Inr \<lparr>startYear = js_min (Num START_YEAR_DEFAULT) minYear,
                  endYear = js_max (Num END_YEAR_DEFAULT) maxYear\<rparr>))"

text \<open>The record with its two date strings (the empty string where there is none).\<close>

definition withDates :: "payloadCargo \<Rightarrow> item" where
  "withDates p =
     \<lparr>inicio = (case p_inicio p of None \<Rightarrow> [] | Some s \<Rightarrow> s),
      fin = (case p_fin p of None \<Rightarrow> [] | Some s \<Rightarrow> s),
      nivel = p_nivel p, label = p_label p, persona = p_persona p,
      institucion = p_institucion p, temas = p_temas p\<rparr>"

text \<open>
  The rendering pass on the payload's records.  The first thing a pass does with the
  records is \<open>getTimelineBounds\<close>, which parses both dates of every record.  When that
  raises, the pass ends with the error.  When it returns, every date field has been
  split, hence is a string, and the rest of the pass is \<open>renderTimeline\<close> above on the
  records with these strings (whose bounds are the ones just computed).
\<close>

definition renderTimelineOn ::
  "jsnum \<Rightarrow> int \<Rightarrow> string \<Rightarrow> payloadCargo list option \<Rightarrow> error + rendering" where
  "renderTimelineOn cssMonthWidth END_YEAR_DEFAULT etype selected =
     (case selected of
        None \<Rightarrow> Inr (renderTimeline cssMonthWidth END_YEAR_DEFAULT etype None)
      | Some items \<Rightarrow>
          (case getTimelineBoundsOn END_YEAR_DEFAULT items of
             Inl e \<Rightarrow> Inl e
           | Inr b \<Rightarrow>
               Inr (renderTimeline cssMonthWidth END_YEAR_DEFAULT etype
                      (Some (map withDates items)))))"

text \<open>A record's two date fields are strings.\<close>

definition dated :: "payloadCargo \<Rightarrow> bool" where
  "dated p = (p_inicio p \<noteq> None \<and> p_fin p \<noteq> None)"

text \<open>
  Two payload records for the worked instances: one whose start date is the empty
  string, and one without an end date.
\<close>

definition undatedPayload :: payloadCargo where
  "undatedPayload =
     \<lparr>p_inicio = Some [], p_fin = Some ''2004-12-01'', p_nivel = ''federal'',
      p_label = ''Diputado'', p_persona = ''Ana'', p_institucion = ''Congreso'', p_temas = []\<rparr>"

definition openEndedPayload :: payloadCargo where
  "openEndedPayload =
     \<lparr>p_inicio = Some ''2004-12-01'', p_fin = None, p_nivel = ''federal'',
      p_label = ''Diputado'', p_persona = ''Ana'', p_institucion = ''Congreso'', p_temas = []\<rparr>"

section \<open>The tooltip controller\<close>

text \<open>
  The script's variables \<open>activeBar\<close> and \<open>rafId\<close>, what it writes to the tooltip
  element (the class \<open>show\<close>, \<open>aria-hidden\<close>, the markup, the position), and the browser's
  side of \<open>requestAnimationFrame\<close>: the callbacks this script has requested and that have
  not run yet, and the identifier counter from which handles are drawn (a handle is the
  counter after incrementing, so it is never 0).  A bar element is identified by its
  index in the lane.
\<close>

record tooltip =
  activeBar :: "nat option"
  rafId :: "nat option"
  shown :: bool
  ariaHidden :: string
  tipHtml :: string
  tipLeft :: rat
  tipTop :: rat
  pending :: "nat list"
  lastHandle :: nat

text \<open>A bounding rectangle, in pixels.\<close>

record rect =
  rc_left :: rat
  rc_top :: rat
  rc_right :: rat
  rc_bottom :: rat

definition rc_width :: "rect \<Rightarrow> rat" where
  "rc_width r = rc_right r - rc_left r"

definition rc_height :: "rect \<Rightarrow> rat" where
  "rc_height r = rc_bottom r - rc_top r"

definition clamp :: "rat \<Rightarrow> rat \<Rightarrow> rat \<Rightarrow> rat" where
  "clamp v lo hi = max lo (min hi v)"

text \<open>\<open>if (rafId)\<close>: \<open>null\<close> and \<open>0\<close> are falsy.\<close>

definition truthy :: "nat option \<Rightarrow> bool" where
  "truthy r = (case r of None \<Rightarrow> False | Some h \<Rightarrow> h \<noteq> 0)"

text \<open>
  \<open>hideTip\<close> and \<open>showTip\<close>, each as the list of states after every statement, and as the
  state it ends in.
\<close>

definition hideTipStates :: "tooltip \<Rightarrow> tooltip list" where
  "hideTipStates t =
     [t\<lparr>shown := False\<rparr>,
      t\<lparr>shown := False, ariaHidden := ''true''\<rparr>,
      t\<lparr>shown := False, ariaHidden := ''true'', activeBar := None\<rparr>]"

definition hideTip :: "tooltip \<Rightarrow> tooltip" where
  "hideTip t = t\<lparr>shown := False, ariaHidden := ''true'', activeBar := None\<rparr>"

definition requestAnimationFrame :: "tooltip \<Rightarrow> nat \<times> tooltip" where
  "requestAnimationFrame t =
     (let h = Suc (lastHandle t) in (h, t\<lparr>lastHandle := h, pending := pending t @ [h]\<rparr>))"

definition scheduleTooltipPosition :: "tooltip \<Rightarrow> tooltip" where
  "scheduleTooltipPosition t =
     (if truthy (rafId t) then t
      else (case requestAnimationFrame t of (h, t') \<Rightarrow> t'\<lparr>rafId := Some h\<rparr>))"

text \<open>
  \<open>showTip\<close> takes the markup that \<open>buildTooltipContent\<close> gives for the bar's record; the
  function \<open>tipOf\<close> stands for the closures \<open>handleShow\<close> of the lane's bars.
\<close>

definition showTipStates :: "(nat \<Rightarrow> string) \<Rightarrow> nat \<Rightarrow> tooltip \<Rightarrow> tooltip list" where
  "showTipStates tipOf b t =
     [t\<lparr>activeBar := Some b\<rparr>,
      t\<lparr>activeBar := Some b, tipHtml := tipOf b\<rparr>,
      t\<lparr>activeBar := Some b, tipHtml := tipOf b, shown := True\<rparr>,
      t\<lparr>activeBar := Some b, tipHtml := tipOf b, shown := True, ariaHidden := ''false''\<rparr>,
      scheduleTooltipPosition
        (t\<lparr>activeBar := Some b, tipHtml := tipOf b, shown := True, ariaHidden := ''false''\<rparr>)]"

definition showTip :: "(nat \<Rightarrow> string) \<Rightarrow> nat \<Rightarrow> tooltip \<Rightarrow> tooltip" where
  "showTip tipOf b t =
     scheduleTooltipPosition
       (t\<lparr>activeBar := Some b, tipHtml := tipOf b, shown := True, ariaHidden := ''false''\<rparr>)"

text \<open>
  \<open>updateTooltipPosition\<close>, given the three rectangles it reads: nothing without a shown
  anchor, \<open>hideTip\<close> when the anchor lies outside the panel, and otherwise the position
  above the anchor, flipped below when it would clip, then clamped into the panel.
\<close>

definition updateTooltipPosition :: "rect \<Rightarrow> rect \<Rightarrow> rect \<Rightarrow> tooltip \<Rightarrow> tooltip" where
  "updateTooltipPosition panelRect barRect tooltipRect t =
     (if activeBar t = None \<or> \<not> shown t then t
      else if rc_right barRect < rc_left panelRect \<or> rc_left barRect > rc_right panelRect
              \<or> rc_bottom barRect < rc_top panelRect \<or> rc_top barRect > rc_bottom panelRect
      then hideTip t
      else
        (let padding = 12;
             left0 = rc_left barRect - rc_left panelRect + rc_width barRect / 2
                     - rc_width tooltipRect / 2;
             top0 = rc_top barRect - rc_top panelRect - rc_height tooltipRect - 10;
             top1 = (if top0 < padding then rc_bottom barRect - rc_top panelRect + 10 else top0);
             left = clamp left0 padding (rc_width panelRect - rc_width tooltipRect - padding);
             top = clamp top1 padding (rc_height panelRect - rc_height tooltipRect - padding)
         in t\<lparr>tipLeft := left, tipTop := top\<rparr>))"

text \<open>
  The events the script listens to.  A bar's \<open>keydown\<close> runs the bar's handler and then,
  bubbling, the document's; \<open>PointerDown\<close> carries whether the target lies in a bar;
  \<open>AnimationFrame\<close> is the browser running the requested callbacks, with the rectangles
  the callbacks will read; \<open>Rerender\<close> is a rendering pass, which starts with
  \<open>clearTimeline\<close>.
\<close>

datatype event =
    MouseEnter nat
  | MouseLeave nat
  | Focus nat
  | Blur nat
  | Click nat
  | BarKeyDown nat string
  | DocKeyDown string
  | PointerDown bool
  | Scroll
  | Resize
  | AnimationFrame rect rect rect
  | Rerender

fun runFrames :: "rect \<Rightarrow> rect \<Rightarrow> rect \<Rightarrow> nat list \<Rightarrow> tooltip \<Rightarrow> tooltip list" where
  "runFrames p b r [] t = []"
| "runFrames p b r (h # hs) t =
     (let t1 = t\<lparr>rafId := None\<rparr>; t2 = updateTooltipPosition p b r t1
      in t1 # t2 # runFrames p b r hs t2)"

text \<open>The states a handler passes through, in order; \<open>step\<close> is the state it ends in.\<close>

fun states :: "(nat \<Rightarrow> string) \<Rightarrow> tooltip \<Rightarrow> event \<Rightarrow> tooltip list" where
  "states tipOf t (MouseEnter b) = showTipStates tipOf b t"
| "states tipOf t (MouseLeave b) = hideTipStates t"
| "states tipOf t (Focus b) = showTipStates tipOf b t"
| "states tipOf t (Blur b) = hideTipStates t"
| "states tipOf t (Click b) =
     (if activeBar t = Some b \<and> shown t then hideTipStates t else showTipStates tipOf b t)"
| "states tipOf t (BarKeyDown b k) =
     (if k = ''Enter'' \<or> k = '' '' then showTipStates tipOf b t
      else if k = ''Escape'' then hideTipStates t
      else [])"
| "states tipOf t (DocKeyDown k) = (if k = ''Escape'' then hideTipStates t else [])"
| "states tipOf t (PointerDown isBar) =
     (if \<not> shown t then [] else if \<not> isBar then hideTipStates t else [])"
| "states tipOf t Scroll = [scheduleTooltipPosition t]"
| "states tipOf t Resize = [scheduleTooltipPosition t]"
| "states tipOf t (AnimationFrame p b r) =
     t\<lparr>pending := []\<rparr> # runFrames p b r (pending t) (t\<lparr>pending := []\<rparr>)"
| "states tipOf t Rerender = hideTipStates t"

definition step :: "(nat \<Rightarrow> string) \<Rightarrow> tooltip \<Rightarrow> event \<Rightarrow> tooltip" where
  "step tipOf t ev = last (t # states tipOf t ev)"

text \<open>
  The activations of a bar that the script funnels into \<open>handleShow\<close>: hover, focus,
  click, and the Enter and space keys.
\<close>

definition requests :: "nat \<Rightarrow> event list" where
  "requests b = [MouseEnter b, Focus b, Click b, BarKeyDown b ''Enter'', BarKeyDown b '' '']"

text \<open>The tooltip before any event: nothing shown, no frame requested.\<close>

definition idleTooltip :: tooltip where
  "idleTooltip =
     \<lparr>activeBar = None, rafId = None, shown = False, ariaHidden = ''true'', tipHtml = [],
      tipLeft = 0, tipTop = 0, pending = [], lastHandle = 0\<rparr>"

text \<open>
  Either no recomputation is requested and none waits, or \<open>rafId\<close> is the handle of the
  one callback that waits.
\<close>

definition oneFrame :: "tooltip \<Rightarrow> bool" where
  "oneFrame t =
     (case rafId t of
        None \<Rightarrow> pending t = []
      | Some h \<Rightarrow> h \<noteq> 0 \<and> pending t = [h])"

text \<open>The state after a sequence of events.\<close>

definition run :: "(nat \<Rightarrow> string) \<Rightarrow> tooltip \<Rightarrow> event list \<Rightarrow> tooltip" where
  "run tipOf t evs = foldl (step tipOf) t evs"

text \<open>A tooltip shown on bar 0, for the worked instances.\<close>

definition shownOnFirst :: tooltip where
  "shownOnFirst = step (\<lambda>b. []) idleTooltip (MouseEnter 0)"

section \<open>Facts about the placement loop\<close>

lemma findRow_Some:
  "findRow s re = Some r \<Longrightarrow> r < length re \<and> js_gt s (re ! r)"
  by (induction re arbitrary: r) (auto split: if_splits)

lemma findRow_None:
  "findRow s re = None \<Longrightarrow> k < length re \<Longrightarrow> \<not> js_gt s (re ! k)"
proof (induction re arbitrary: k)
  case Nil
  then show ?case by simp
next
  case (Cons e es)
  then show ?case by (cases k) (auto split: if_splits)
qed

lemma place_keeps:
  "place ss re = (out, re') \<Longrightarrow>
     map seg_start out = map seg_start ss \<and> map seg_end out = map seg_end ss
     \<and> map seg_it out = map seg_it ss \<and> length re \<le> length re'"
proof (induction ss arbitrary: re out re')
  case Nil
  then show ?case by simp
next
  case (Cons h rest)
  show ?case
  proof (cases "findRow (seg_start h) re")
    case None
    obtain o1 r1 where p: "place rest (re @ [seg_end h]) = (o1, r1)" by fastforce
    from Cons.prems None p have "out = h\<lparr>seg_row := Some (length re)\<rparr> # o1" "re' = r1" by simp_all
    with Cons.IH[OF p] show ?thesis by simp
  next
    case (Some r)
    obtain o1 r1 where p: "place rest (re[r := seg_end h]) = (o1, r1)" by fastforce
    from Cons.prems Some p have "out = h\<lparr>seg_row := Some r\<rparr> # o1" "re' = r1" by simp_all
    with Cons.IH[OF p] show ?thesis by simp
  qed
qed

lemma js_gt_mono: "js_le a b \<Longrightarrow> js_gt a e \<Longrightarrow> js_gt b e"
  by (cases a; cases b; cases e) auto

lemma place_row_gt:
  "sorted_wrt byStart ss \<Longrightarrow> place ss re = (out, re') \<Longrightarrow> y \<in> set out \<Longrightarrow>
   seg_row y = Some r \<Longrightarrow> r < length re \<Longrightarrow> js_gt (seg_start y) (re ! r)"
proof (induction ss arbitrary: re out re')
  case Nil
  then show ?case by simp
next
  case (Cons h rest)
  have srt: "sorted_wrt byStart rest" and hle: "\<forall>x\<in>set rest. js_le (seg_start h) (seg_start x)"
    using Cons.prems(1) by simp_all
  show ?case
  proof (cases "findRow (seg_start h) re")
    case None
    obtain o1 r1 where p: "place rest (re @ [seg_end h]) = (o1, r1)" by fastforce
    from Cons.prems(2) None p have out: "out = h\<lparr>seg_row := Some (length re)\<rparr> # o1" by simp
    from Cons.prems(3,4,5) out have "y \<in> set o1" by auto
    from Cons.IH[OF srt p this Cons.prems(4)] Cons.prems(5)
    show ?thesis by (simp add: nth_append)
  next
    case (Some r0)
    from findRow_Some[OF Some] have r0: "r0 < length re" "js_gt (seg_start h) (re ! r0)" by simp_all
    obtain o1 r1 where p: "place rest (re[r0 := seg_end h]) = (o1, r1)" by fastforce
    from Cons.prems(2) Some p have out: "out = h\<lparr>seg_row := Some r0\<rparr> # o1" by simp
    show ?thesis
    proof (cases "y \<in> set o1")
      case False
      with Cons.prems(3,4) out have "r = r0" "seg_start y = seg_start h" by auto
      with r0 show ?thesis by simp
    next
      case True
      from Cons.IH[OF srt p True Cons.prems(4)] Cons.prems(5)
      have g: "js_gt (seg_start y) (re[r0 := seg_end h] ! r)" by simp
      show ?thesis
      proof (cases "r = r0")
        case False
        with g show ?thesis by simp
      next
        case eq: True
        from True place_keeps[OF p] have "seg_start y \<in> set (map seg_start rest)"
          by (metis image_eqI set_map)
        then obtain x where "x \<in> set rest" "seg_start x = seg_start y" by auto
        with hle have "js_le (seg_start h) (seg_start y)" by auto
        from js_gt_mono[OF this r0(2)] eq show ?thesis by simp
      qed
    qed
  qed
qed

lemma place_rows_apart:
  "sorted_wrt byStart ss \<Longrightarrow> place ss re = (out, re') \<Longrightarrow> i < j \<Longrightarrow> j < length out \<Longrightarrow>
   seg_row (out ! i) = seg_row (out ! j) \<Longrightarrow> js_gt (seg_start (out ! j)) (seg_end (out ! i))"
proof (induction ss arbitrary: re out re' i j)
  case Nil
  then show ?case by simp
next
  case (Cons h rest)
  have srt: "sorted_wrt byStart rest" using Cons.prems(1) by simp
  obtain r0 re1 where step:
    "place rest re1 = (tl out, re')" "out = h\<lparr>seg_row := Some r0\<rparr> # tl out"
    "r0 < length re1" "re1 ! r0 = seg_end h"
  proof (cases "findRow (seg_start h) re")
    case None
    obtain o1 r1 where p: "place rest (re @ [seg_end h]) = (o1, r1)" by fastforce
    with Cons.prems(2) None have "out = h\<lparr>seg_row := Some (length re)\<rparr> # o1" "re' = r1" by simp_all
    with p that[of "re @ [seg_end h]" "length re"] show ?thesis by simp
  next
    case (Some r)
    obtain o1 r1 where p: "place rest (re[r := seg_end h]) = (o1, r1)" by fastforce
    with Cons.prems(2) Some have "out = h\<lparr>seg_row := Some r\<rparr> # o1" "re' = r1" by simp_all
    with p findRow_Some[OF Some] that[of "re[r := seg_end h]" r] show ?thesis by simp
  qed
  obtain j' where j': "j = Suc j'" using Cons.prems(3) by (cases j) auto
  have jl: "j' < length (tl out)" using Cons.prems(4) j' step(2) by (metis Suc_less_eq length_Cons)
  have oj: "out ! j = tl out ! j'" using j' step(2) by (metis nth_Cons_Suc)
  show ?case
  proof (cases i)
    case 0
    have oi: "out ! i = h\<lparr>seg_row := Some r0\<rparr>" using 0 step(2) by (metis nth_Cons_0)
    have "seg_row (tl out ! j') = Some r0" using Cons.prems(5) oi oj by simp
    from place_row_gt[OF srt step(1) nth_mem[OF jl] this step(3)] step(4) oi oj
    show ?thesis by simp
  next
    case (Suc i')
    have oi: "out ! i = tl out ! i'" using Suc step(2) by (metis nth_Cons_Suc)
    from Cons.IH[OF srt step(1), of i' j'] Cons.prems(3,5) Suc j' jl oi oj
    show ?thesis by simp
  qed
qed

lemma place_row_bound:
  "place ss re = (out, re') \<Longrightarrow> y \<in> set out \<Longrightarrow> \<exists>r. seg_row y = Some r \<and> r < length re'"
proof (induction ss arbitrary: re out re')
  case Nil
  then show ?case by simp
next
  case (Cons h rest)
  show ?case
  proof (cases "findRow (seg_start h) re")
    case None
    obtain o1 r1 where p: "place rest (re @ [seg_end h]) = (o1, r1)" by fastforce
    from Cons.prems(1) None p have out: "out = h\<lparr>seg_row := Some (length re)\<rparr> # o1" "re' = r1" by simp_all
    from place_keeps[OF p] have "length re < length r1" by simp
    with Cons.IH[OF p] Cons.prems(2) out show ?thesis by auto
  next
    case (Some r)
    obtain o1 r1 where p: "place rest (re[r := seg_end h]) = (o1, r1)" by fastforce
    from Cons.prems(1) Some p have out: "out = h\<lparr>seg_row := Some r\<rparr> # o1" "re' = r1" by simp_all
    from place_keeps[OF p] findRow_Some[OF Some] have "r < length r1" by simp
    with Cons.IH[OF p] Cons.prems(2) out show ?thesis by auto
  qed
qed

lemma set_insort_cmp: "set (insort_cmp cmp x ys) = insert x (set ys)"
  by (induction ys) auto

lemma mset_insort_cmp: "mset (insort_cmp cmp x ys) = add_mset x (mset ys)"
  by (induction ys) auto

lemma mset_js_sort: "mset (js_sort cmp xs) = mset xs"
  unfolding js_sort_def by (induction xs) (auto simp: mset_insort_cmp)

lemma set_js_sort: "set (js_sort cmp xs) = set xs"
  by (metis mset_js_sort set_mset_mset)

lemma cmpSeg_pos:
  "numeric x \<Longrightarrow> numeric y \<Longrightarrow> js_gt (cmpSeg x y) (Num 0) \<Longrightarrow> js_le (seg_start y) (seg_start x)"
  by (cases "seg_start x"; cases "seg_start y"; cases "seg_end x"; cases "seg_end y")
     (auto simp: numeric_def cmpSeg_def split: if_splits)

lemma cmpSeg_nonpos:
  "numeric x \<Longrightarrow> numeric y \<Longrightarrow> \<not> js_gt (cmpSeg x y) (Num 0) \<Longrightarrow> js_le (seg_start x) (seg_start y)"
  by (cases "seg_start x"; cases "seg_start y"; cases "seg_end x"; cases "seg_end y")
     (auto simp: numeric_def cmpSeg_def split: if_splits)

lemma js_le_trans: "js_le a b \<Longrightarrow> js_le b c \<Longrightarrow> js_le a c"
  by (cases a; cases b; cases c) auto

lemma sorted_insort_cmp:
  "numeric x \<Longrightarrow> \<forall>y\<in>set ys. numeric y \<Longrightarrow> sorted_wrt byStart ys \<Longrightarrow>
   sorted_wrt byStart (insort_cmp cmpSeg x ys)"
proof (induction ys)
  case Nil
  then show ?case by simp
next
  case (Cons y ys)
  show ?case
  proof (cases "js_gt (cmpSeg x y) (Num 0)")
    case True
    from cmpSeg_pos[OF Cons.prems(1) _ True] Cons.prems(2) have "byStart y x" by simp
    with Cons show ?thesis using True by (auto simp: set_insort_cmp)
  next
    case False
    from cmpSeg_nonpos[OF Cons.prems(1) _ False] Cons.prems(2) have xy: "byStart x y" by simp
    have "\<forall>z\<in>set ys. byStart x z" using Cons.prems(3) xy js_le_trans by auto
    with xy Cons.prems(3) False show ?thesis by simp
  qed
qed

lemma sorted_js_sort:
  "\<forall>y\<in>set xs. numeric y \<Longrightarrow> sorted_wrt byStart (js_sort cmpSeg xs)"
proof (induction xs)
  case Nil
  then show ?case by (simp add: js_sort_def)
next
  case (Cons x xs)
  have "\<forall>y\<in>set (js_sort cmpSeg xs). numeric y" using Cons.prems by (simp add: set_js_sort)
  from sorted_insort_cmp[OF _ this] Cons show ?case by (simp add: js_sort_def)
qed

lemma monthIndex_valid:
  "d \<noteq> InvalidDate \<Longrightarrow> \<exists>k. monthIndex d (Num sy) = Num k"
  by (cases d) (auto simp: monthIndex_def)

lemma numeric_toSeg: "validDates it \<Longrightarrow> numeric (toSeg (Num sy) it)"
  using monthIndex_valid[of "parseDate (inicio it)" sy] monthIndex_valid[of "parseDate (fin it)" sy]
  by (auto simp: validDates_def numeric_def toSeg_def)

lemma sorted_segs_of_items:
  "\<forall>it\<in>set items. validDates it \<Longrightarrow>
   sorted_wrt byStart (js_sort cmpSeg (map (toSeg (Num sy)) items))"
  by (rule sorted_js_sort) (auto simp: numeric_toSeg)

lemma stackOverlaps_place:
  "\<exists>re. place (js_sort cmpSeg (map (toSeg sy) items)) [] = (segs (stackOverlaps items sy), re)
        \<and> rowCount (stackOverlaps items sy) = length re"
  by (cases "place (js_sort cmpSeg (map (toSeg sy) items)) []") (simp add: stackOverlaps_def)

lemma depth_append: "depth (xs @ ys) m = depth xs m + depth ys m"
  by (simp add: depth_def)

lemma depth_span:
  "depth ss m = size (filter_mset (\<lambda>p. js_le (fst p) (Num m) \<and> js_le (Num m) (snd p)) (image_mset span (mset ss)))"
proof -
  let ?P = "\<lambda>p. js_le (fst p) (Num m) \<and> js_le (Num m) (snd p)"
  have "depth ss m = length (filter ?P (map span ss))"
    by (simp add: depth_def filter_map o_def covers_def span_def)
  also have "\<dots> = size (mset (filter ?P (map span ss)))"
    by (simp only: size_mset)
  also have "\<dots> = size (filter_mset ?P (image_mset span (mset ss)))"
    by (simp only: mset_filter mset_map)
  finally show ?thesis .
qed

lemma place_span: "place ss re = (out, re') \<Longrightarrow> map span out = map span ss"
proof -
  assume "place ss re = (out, re')"
  from place_keeps[OF this] have a: "map seg_start out = map seg_start ss" and b: "map seg_end out = map seg_end ss" by simp_all
  have l: "length out = length ss" using a by (metis length_map)
  show ?thesis
  proof (rule nth_equalityI)
    show "length (map span out) = length (map span ss)" using l by simp
  next
    fix i assume "i < length (map span out)"
    then have i: "i < length out" "i < length ss" using l by simp_all
    have "seg_start (out ! i) = seg_start (ss ! i)" using a i by (metis nth_map)
    moreover have "seg_end (out ! i) = seg_end (ss ! i)" using b i by (metis nth_map)
    ultimately show "map span out ! i = map span ss ! i" using i by (simp add: span_def)
  qed
qed

lemma depth_stackOverlaps:
  "depth (segs (stackOverlaps items sy)) m = openAt items sy m"
proof -
  obtain re where p: "place (js_sort cmpSeg (map (toSeg sy) items)) [] = (segs (stackOverlaps items sy), re)"
    using stackOverlaps_place by blast
  have "image_mset span (mset (segs (stackOverlaps items sy))) = mset (map span (segs (stackOverlaps items sy)))"
    by simp
  also have "\<dots> = mset (map span (js_sort cmpSeg (map (toSeg sy) items)))"
    using place_span[OF p] by simp
  also have "\<dots> = image_mset span (mset (map (toSeg sy) items))"
    by (simp add: mset_js_sort)
  finally have "depth (segs (stackOverlaps items sy)) m = depth (map (toSeg sy) items) m"
    by (simp add: depth_span)
  also have "\<dots> = openAt items sy m"
    by (simp add: depth_def openAt_def filter_map o_def)
  finally show ?thesis .
qed

lemma covers_apart: "covers a m \<Longrightarrow> covers b m \<Longrightarrow> \<not> js_gt (seg_start b) (seg_end a)"
  by (cases "seg_start b"; cases "seg_end a") (auto simp: covers_def)

lemma depth_le_rows:
  assumes srt: "sorted_wrt byStart ss" and p: "place ss [] = (out, re')"
  shows "depth out m \<le> length re'"
proof -
  let ?S = "{i. i < length out \<and> covers (out ! i) m}"
  have inj: "inj_on (\<lambda>i. seg_row (out ! i)) ?S"
  proof (rule inj_onI)
    fix i j assume i: "i \<in> ?S" and j: "j \<in> ?S" and eq: "seg_row (out ! i) = seg_row (out ! j)"
    show "i = j"
    proof (rule ccontr)
      assume ne: "i \<noteq> j"
      show False
      proof (cases "i < j")
        case True
        from place_rows_apart[OF srt p True _ eq] j covers_apart[of "out ! i" m "out ! j"] i
        show False by simp
      next
        case False
        with ne have lt: "j < i" by simp
        from place_rows_apart[OF srt p lt _ eq[symmetric]] i covers_apart[of "out ! j" m "out ! i"] j
        show False by simp
      qed
    qed
  qed
  have sub: "(\<lambda>i. seg_row (out ! i)) ` ?S \<subseteq> Some ` {r. r < length re'}"
  proof
    fix v assume "v \<in> (\<lambda>i. seg_row (out ! i)) ` ?S"
    then obtain i where i: "i < length out" "v = seg_row (out ! i)" by auto
    from place_row_bound[OF p nth_mem[OF i(1)]] i(2) show "v \<in> Some ` {r. r < length re'}" by auto
  qed
  have "depth out m = card ?S" by (simp add: depth_def length_filter_conv_card)
  also have "\<dots> = card ((\<lambda>i. seg_row (out ! i)) ` ?S)" using inj by (simp add: card_image)
  also have "\<dots> \<le> card (Some ` {r. r < length re'})" using sub by (intro card_mono) auto
  also have "\<dots> = length re'" by (simp add: card_image)
  finally show ?thesis .
qed

lemma depth_new_row:
  assumes tr: "rowsTrack prev re"
    and ord: "\<forall>x\<in>set prev. ordered x"
    and before: "\<forall>x\<in>set prev. js_le (seg_start x) (Num a)"
    and none: "findRow (Num a) re = None"
  shows "length re \<le> depth prev a"
proof -
  let ?S = "{x \<in> set prev. covers x a}"
  have "Some ` {r. r < length re} \<subseteq> seg_row ` ?S"
  proof
    fix v assume "v \<in> Some ` {r. r < length re}"
    then obtain r where r: "r < length re" "v = Some r" by auto
    from tr r(1) obtain x where x: "x \<in> set prev" "seg_row x = Some r" "seg_end x = re ! r"
      unfolding rowsTrack_def by blast
    from findRow_None[OF none r(1)] x(3) have ng: "\<not> js_gt (Num a) (seg_end x)" by simp
    from ord x(1) have "js_le (seg_start x) (seg_end x)" by (simp add: ordered_def)
    with ng have "js_le (Num a) (seg_end x)"
      by (cases "seg_start x"; cases "seg_end x") auto
    with before x(1) have "covers x a" by (simp add: covers_def)
    with x(1,2) r(2) show "v \<in> seg_row ` ?S" by force
  qed
  then have "card (Some ` {r. r < length re}) \<le> card (seg_row ` ?S)"
    by (intro card_mono) auto
  also have "\<dots> \<le> card ?S" by (intro card_image_le) auto
  also have "\<dots> = card (set (filter (\<lambda>x. covers x a) prev))" by (simp add: conj_commute)
  also have "\<dots> \<le> depth prev a" unfolding depth_def by (rule card_length)
  finally show ?thesis by (simp add: card_image)
qed

lemma place_depth:
  assumes "sorted_wrt byStart ss"
    and "\<forall>s\<in>set ss. ordered s"
    and "\<forall>x\<in>set prev. ordered x"
    and "\<forall>x\<in>set prev. \<forall>s\<in>set ss. js_le (seg_start x) (seg_start s)"
    and "rowsTrack prev re"
    and "place ss re = (out, re')"
    and "\<exists>m. length re \<le> depth prev m"
  shows "\<exists>m. length re' \<le> depth (prev @ out) m"
  using assms
proof (induction ss arbitrary: prev re out)
  case Nil
  then show ?case by simp
next
  case (Cons h rest)
  have srt: "sorted_wrt byStart rest" and hle: "\<forall>s\<in>set rest. js_le (seg_start h) (seg_start s)"
    using Cons.prems(1) by simp_all
  have ordr: "\<forall>s\<in>set rest. ordered s" and ordh: "ordered h" using Cons.prems(2) by simp_all
  obtain a b where ab: "seg_start h = Num a" "seg_end h = Num b" "a \<le> b"
    using ordh by (cases "seg_start h"; cases "seg_end h") (auto simp: ordered_def)
  show ?case
  proof (cases "findRow (seg_start h) re")
    case None
    let ?h = "h\<lparr>seg_row := Some (length re)\<rparr>"
    obtain o1 where p: "place rest (re @ [seg_end h]) = (o1, re')" and out: "out = ?h # o1"
      using Cons.prems(6) None by (cases "place rest (re @ [seg_end h])") auto
    have o': "\<forall>x\<in>set (prev @ [?h]). ordered x" using Cons.prems(3) ordh by (simp add: ordered_def)
    have b': "\<forall>x\<in>set (prev @ [?h]). \<forall>s\<in>set rest. js_le (seg_start x) (seg_start s)"
      using Cons.prems(4) hle by simp
    have t': "rowsTrack (prev @ [?h]) (re @ [seg_end h])"
      unfolding rowsTrack_def
    proof (intro allI impI)
      fix r assume "r < length (re @ [seg_end h])"
      then consider "r < length re" | "r = length re" by fastforce
      then show "\<exists>x\<in>set (prev @ [?h]). seg_row x = Some r \<and> seg_end x = (re @ [seg_end h]) ! r"
      proof cases
        case 1
        with Cons.prems(5) show ?thesis unfolding rowsTrack_def by (auto simp: nth_append)
      next
        case 2
        then show ?thesis by simp
      qed
    qed
    have "\<forall>x\<in>set prev. js_le (seg_start x) (Num a)" using Cons.prems(4) ab(1) by simp
    from depth_new_row[OF Cons.prems(5,3) this] None ab(1)
    have "length re \<le> depth prev a" by simp
    moreover have "covers ?h a" using ab by (simp add: covers_def)
    ultimately have "length (re @ [seg_end h]) \<le> depth (prev @ [?h]) a"
      by (simp add: depth_def)
    then have d': "\<exists>m. length (re @ [seg_end h]) \<le> depth (prev @ [?h]) m" ..
    from Cons.IH[OF srt ordr o' b' t' p d'] out show ?thesis by simp
  next
    case (Some r0)
    let ?h = "h\<lparr>seg_row := Some r0\<rparr>"
    from findRow_Some[OF Some] have r0: "r0 < length re" by simp
    obtain o1 where p: "place rest (re[r0 := seg_end h]) = (o1, re')" and out: "out = ?h # o1"
      using Cons.prems(6) Some by (cases "place rest (re[r0 := seg_end h])") auto
    have o': "\<forall>x\<in>set (prev @ [?h]). ordered x" using Cons.prems(3) ordh by (simp add: ordered_def)
    have b': "\<forall>x\<in>set (prev @ [?h]). \<forall>s\<in>set rest. js_le (seg_start x) (seg_start s)"
      using Cons.prems(4) hle by simp
    have t': "rowsTrack (prev @ [?h]) (re[r0 := seg_end h])"
      unfolding rowsTrack_def
    proof (intro allI impI)
      fix r assume r: "r < length (re[r0 := seg_end h])"
      show "\<exists>x\<in>set (prev @ [?h]). seg_row x = Some r \<and> seg_end x = re[r0 := seg_end h] ! r"
      proof (cases "r = r0")
        case True
        with r0 show ?thesis by simp
      next
        case False
        with Cons.prems(5) r show ?thesis unfolding rowsTrack_def by auto
      qed
    qed
    from Cons.prems(7) obtain m where "length re \<le> depth prev m" ..
    then have "length (re[r0 := seg_end h]) \<le> depth (prev @ [?h]) m" by (simp add: depth_def)
    then have d': "\<exists>m. length (re[r0 := seg_end h]) \<le> depth (prev @ [?h]) m" ..
    from Cons.IH[OF srt ordr o' b' t' p d'] out show ?thesis by simp
  qed
qed

lemma monthIndex_shift:
  "js_le (monthIndex d (Num 0)) (monthIndex e (Num 0)) \<Longrightarrow> js_le (monthIndex d (Num sy)) (monthIndex e (Num sy))"
  by (cases d; cases e) (auto simp: monthIndex_def)

lemma ordered_toSeg: "startNotAfterEnd it \<Longrightarrow> ordered (toSeg (Num sy) it)"
  by (simp add: startNotAfterEnd_def ordered_def toSeg_def monthIndex_shift)

lemma ordered_numeric: "ordered s \<Longrightarrow> numeric s"
  by (cases "seg_start s"; cases "seg_end s") (auto simp: ordered_def numeric_def)

lemma stackOverlaps_rows_assigned:
  "s \<in> set (segs (stackOverlaps items sy)) \<Longrightarrow>
   \<exists>r. seg_row s = Some r \<and> r < rowCount (stackOverlaps items sy)"
proof -
  assume s: "s \<in> set (segs (stackOverlaps items sy))"
  obtain re where p: "place (js_sort cmpSeg (map (toSeg sy) items)) [] = (segs (stackOverlaps items sy), re)"
    and rc: "rowCount (stackOverlaps items sy) = length re"
    using stackOverlaps_place by blast
  from place_row_bound[OF p s] rc show ?thesis by simp
qed

lemma stackOverlaps_keeps_items:
  "mset (map seg_it (segs (stackOverlaps items sy))) = mset items"
proof -
  obtain re where p: "place (js_sort cmpSeg (map (toSeg sy) items)) [] = (segs (stackOverlaps items sy), re)"
    using stackOverlaps_place by blast
  have strip: "map seg_it (map (toSeg sy) items) = items"
    by (induction items) (simp_all add: toSeg_def)
  from place_keeps[OF p]
  have "mset (map seg_it (segs (stackOverlaps items sy))) = image_mset seg_it (mset (js_sort cmpSeg (map (toSeg sy) items)))"
    by simp
  also have "\<dots> = image_mset seg_it (mset (map (toSeg sy) items))" by (simp only: mset_js_sort)
  also have "\<dots> = mset (map seg_it (map (toSeg sy) items))" by (simp only: mset_map)
  finally show ?thesis by (simp only: strip)
qed

section \<open>Properties of the stacking\<close>

text \<open>
  Claim C1.  For every list of intervals (records whose dates parse) and every bounds
  start year, two segments of the result of \<open>stackOverlaps\<close> that carry the same row do
  not overlap: their closed month ranges \<open>[_start, _end]\<close> do not meet, not even in one
  boundary month.
\<close>

theorem stackOverlaps_rows_disjoint:
  assumes "\<forall>it\<in>set items. validDates it"
    and "i < j" and "j < length (segs (stackOverlaps items (Num sy)))"
    and "seg_row (segs (stackOverlaps items (Num sy)) ! i) = seg_row (segs (stackOverlaps items (Num sy)) ! j)"
  shows "\<not> overlaps (segs (stackOverlaps items (Num sy)) ! i) (segs (stackOverlaps items (Num sy)) ! j)"
proof -
  obtain re where p: "place (js_sort cmpSeg (map (toSeg (Num sy)) items)) [] = (segs (stackOverlaps items (Num sy)), re)"
    using stackOverlaps_place by blast
  from place_rows_apart[OF sorted_segs_of_items[OF assms(1)] p assms(2,3,4)]
  have "js_gt (seg_start (segs (stackOverlaps items (Num sy)) ! j)) (seg_end (segs (stackOverlaps items (Num sy)) ! i))" .
  then show ?thesis
    unfolding overlaps_def
    by (cases "seg_start (segs (stackOverlaps items (Num sy)) ! j)"; cases "seg_end (segs (stackOverlaps items (Num sy)) ! i)") auto
qed

theorem stackOverlaps_rows_disjoint_witness:
  "seg_row (segs (stackOverlaps threeTerms (Num 1997)) ! 0) = Some 0
   \<and> seg_row (segs (stackOverlaps threeTerms (Num 1997)) ! 1) = Some 0
   \<and> \<not> overlaps (segs (stackOverlaps threeTerms (Num 1997)) ! 0)
                 (segs (stackOverlaps threeTerms (Num 1997)) ! 1)"
proof -
  have v: "\<forall>it\<in>set threeTerms. validDates it" by code_simp
  have l: "1 < length (segs (stackOverlaps threeTerms (Num 1997)))" by code_simp
  have r0: "seg_row (segs (stackOverlaps threeTerms (Num 1997)) ! 0) = Some 0" by code_simp
  have r1: "seg_row (segs (stackOverlaps threeTerms (Num 1997)) ! 1) = Some 0" by code_simp
  from stackOverlaps_rows_disjoint[OF v _ l, of 0] r0 r1 show ?thesis by simp
qed

text \<open>
  Claim C2.  For every list of ordered intervals (both dates parse, start month not after
  end month), the \<open>rowCount\<close> that \<open>stackOverlaps\<close> returns is the maximum, over all month
  indices, of the number of intervals whose closed month range contains that index: no
  month is covered by more than \<open>rowCount\<close> intervals, and some month is covered by
  exactly \<open>rowCount\<close> of them.
\<close>

theorem stackOverlaps_rowCount_is_max_depth:
  assumes "\<forall>it\<in>set items. startNotAfterEnd it"
  shows "(\<forall>m. openAt items (Num sy) m \<le> rowCount (stackOverlaps items (Num sy)))
       \<and> (\<exists>m. openAt items (Num sy) m = rowCount (stackOverlaps items (Num sy)))"
proof -
  let ?ss = "js_sort cmpSeg (map (toSeg (Num sy)) items)"
  let ?res = "stackOverlaps items (Num sy)"
  obtain re where p: "place ?ss [] = (segs ?res, re)" and rc: "rowCount ?res = length re"
    using stackOverlaps_place by blast
  have ord: "\<forall>s\<in>set ?ss. ordered s" using assms by (auto simp: set_js_sort ordered_toSeg)
  then have "\<forall>s\<in>set ?ss. numeric s" using ordered_numeric by blast
  then have "\<forall>s\<in>set (map (toSeg (Num sy)) items). numeric s" by (simp add: set_js_sort)
  then have srt: "sorted_wrt byStart ?ss" by (rule sorted_js_sort)
  have up: "openAt items (Num sy) m \<le> rowCount ?res" for m
    using depth_le_rows[OF srt p, of m] by (simp add: depth_stackOverlaps rc)
  have "\<exists>m. length re \<le> depth ([] @ segs ?res) m"
    by (rule place_depth[OF srt ord _ _ _ p]) (simp_all add: rowsTrack_def)
  then obtain m where "rowCount ?res \<le> openAt items (Num sy) m"
    by (auto simp: depth_stackOverlaps rc)
  with up[of m] have "openAt items (Num sy) m = rowCount ?res" by simp
  with up show ?thesis by blast
qed

theorem stackOverlaps_rowCount_is_max_depth_witness:
  "rowCount (stackOverlaps twoTerms (Num 1997)) = 2
   \<and> (\<forall>m. openAt twoTerms (Num 1997) m \<le> 2)
   \<and> (\<exists>m. openAt twoTerms (Num 1997) m = 2)"
proof -
  have v: "\<forall>it\<in>set twoTerms. startNotAfterEnd it" by code_simp
  have r: "rowCount (stackOverlaps twoTerms (Num 1997)) = 2" by code_simp
  from stackOverlaps_rowCount_is_max_depth[OF v, of 1997] r show ?thesis by simp
qed

text \<open>
  The hypothesis is needed: the script does not reject a record that ends before it
  starts; such a record covers no month and still opens a row.
\<close>

lemma inverted_record_opens_a_row:
  "rowCount (stackOverlaps [cargo ''2012-01-01'' ''2010-01-01''] (Num 1997)) = 1
   \<and> openAt [cargo ''2012-01-01'' ''2010-01-01''] (Num 1997) m = 0"
proof -
  have r: "rowCount (stackOverlaps [cargo ''2012-01-01'' ''2010-01-01''] (Num 1997)) = 1"
    by code_simp
  have s: "toSeg (Num 1997) (cargo ''2012-01-01'' ''2010-01-01'')
           = \<lparr>seg_it = cargo ''2012-01-01'' ''2010-01-01'', seg_start = Num 180, seg_end = Num 156,
              seg_row = None\<rparr>"
    by code_simp
  have "openAt [cargo ''2012-01-01'' ''2010-01-01''] (Num 1997) m = 0"
    by (simp add: openAt_def covers_def s)
  with r show ?thesis by simp
qed

section \<open>Bounds\<close>

lemma getFullYear_valid: "parseDate s \<noteq> InvalidDate \<Longrightarrow> getFullYear (parseDate s) = Num (yearOf s)"
  by (cases "parseDate s") (simp_all add: yearOf_def)

lemma Min_insert_min:
  "finite A \<Longrightarrow> Min (insert (min a y) A) = Min (insert a (insert y A))"
  by (cases "A = {}") (auto simp: min.assoc)

lemma Max_insert_max:
  "finite A \<Longrightarrow> Max (insert (max b y) A) = Max (insert b (insert y A))"
  by (cases "A = {}") (auto simp: max.assoc)

lemma fold_years:
  "\<forall>it\<in>set items. validDates it \<Longrightarrow>
   foldl (\<lambda>(minYear, maxYear) it.
            (js_min minYear (getFullYear (parseDate (inicio it))),
             js_max maxYear (getFullYear (parseDate (fin it)))))
         (Num a, Num b) items
   = (Num (Min (insert a ((\<lambda>it. yearOf (inicio it)) ` set items))),
      Num (Max (insert b ((\<lambda>it. yearOf (fin it)) ` set items))))"
proof (induction items arbitrary: a b)
  case Nil
  then show ?case by simp
next
  case (Cons it rest)
  have v: "validDates it" and vr: "\<forall>it\<in>set rest. validDates it" using Cons.prems by simp_all
  have s: "getFullYear (parseDate (inicio it)) = Num (yearOf (inicio it))"
    and e: "getFullYear (parseDate (fin it)) = Num (yearOf (fin it))"
    using v by (simp_all add: validDates_def getFullYear_valid)
  show ?case
    using Cons.IH[OF vr, of "min a (yearOf (inicio it))" "max b (yearOf (fin it))"]
    by (simp add: s e Min_insert_min Max_insert_max)
qed

lemma getTimelineBounds_valid:
  assumes "\<forall>it\<in>set items. validDates it"
  shows "getTimelineBounds cy items =
     (if items = [] then \<lparr>startYear = Num 1997, endYear = Num cy\<rparr>
      else \<lparr>startYear = Num (Min (insert 1997 (insert cy ((\<lambda>it. yearOf (inicio it)) ` set items)))),
            endYear = Num (Max (insert cy (insert 1997 ((\<lambda>it. yearOf (fin it)) ` set items))))\<rparr>)"
  using assms
  by (simp add: getTimelineBounds_def START_YEAR_DEFAULT_def fold_years)

text \<open>
  Claim C5.  \<open>getTimelineBounds\<close> only widens the default window.  For every list of
  intervals (records whose dates parse) it returns a start year of at most 1997 and an
  end year of at least the current year; for the empty list it returns exactly 1997 and
  the current year; and a list with one more interval, inserted at any position, gets
  a start year no later and an end year no earlier.  Being a function of the current
  year and the list, it returns the same bounds whenever it is given the same list.
\<close>

theorem getTimelineBounds_widens_only:
  assumes "\<forall>it\<in>set (xs @ ys). validDates it" and "validDates x"
  shows "js_le (startYear (getTimelineBounds cy (xs @ ys))) (Num 1997)
       \<and> js_le (Num cy) (endYear (getTimelineBounds cy (xs @ ys)))
       \<and> getTimelineBounds cy [] = \<lparr>startYear = Num 1997, endYear = Num cy\<rparr>
       \<and> js_le (startYear (getTimelineBounds cy (xs @ x # ys))) (startYear (getTimelineBounds cy (xs @ ys)))
       \<and> js_le (endYear (getTimelineBounds cy (xs @ ys))) (endYear (getTimelineBounds cy (xs @ x # ys)))"
proof -
  let ?S = "(\<lambda>it. yearOf (inicio it)) ` set (xs @ ys)"
  let ?E = "(\<lambda>it. yearOf (fin it)) ` set (xs @ ys)"
  define lo where "lo = Min (insert 1997 (insert cy ?S))"
  define hi where "hi = Max (insert cy (insert 1997 ?E))"
  define lo1 where "lo1 = Min (insert 1997 (insert cy (insert (yearOf (inicio x)) ?S)))"
  define hi1 where "hi1 = Max (insert cy (insert 1997 (insert (yearOf (fin x)) ?E)))"
  have v': "\<forall>it\<in>set (xs @ x # ys). validDates it" using assms by auto
  have b0: "getTimelineBounds cy (xs @ ys) =
     (if xs @ ys = [] then \<lparr>startYear = Num 1997, endYear = Num cy\<rparr>
      else \<lparr>startYear = Num lo, endYear = Num hi\<rparr>)"
    unfolding lo_def hi_def by (rule getTimelineBounds_valid[OF assms(1)])
  have S': "(\<lambda>it. yearOf (inicio it)) ` set (xs @ x # ys) = insert (yearOf (inicio x)) ?S"
    and E': "(\<lambda>it. yearOf (fin it)) ` set (xs @ x # ys) = insert (yearOf (fin x)) ?E" by auto
  have ne: "xs @ x # ys \<noteq> []" by simp
  have b1: "getTimelineBounds cy (xs @ x # ys) = \<lparr>startYear = Num lo1, endYear = Num hi1\<rparr>"
    unfolding lo1_def hi1_def
    using getTimelineBounds_valid[OF v', of cy] by (simp only: S' E' ne if_False)
  have l: "lo \<le> 1997" unfolding lo_def by (intro Min_le) auto
  have h: "cy \<le> hi" unfolding hi_def by (intro Max_ge) auto
  have l1: "lo1 \<le> 1997" unfolding lo1_def by (intro Min_le) auto
  have h1: "cy \<le> hi1" unfolding hi1_def by (intro Max_ge) auto
  have ml: "lo1 \<le> lo" unfolding lo_def lo1_def by (intro Min_antimono) auto
  have mh: "hi \<le> hi1" unfolding hi_def hi1_def by (intro Max_mono) auto
  have c0: "getTimelineBounds cy [] = \<lparr>startYear = Num 1997, endYear = Num cy\<rparr>"
    by (simp add: getTimelineBounds_def START_YEAR_DEFAULT_def)
  show ?thesis
  proof (cases "xs @ ys = []")
    case True
    with b0 b1 l1 h1 c0 show ?thesis by simp
  next
    case False
    with b0 b1 l h ml mh c0 show ?thesis by simp
  qed
qed

theorem getTimelineBounds_widens_only_witness:
  "js_le (startYear (getTimelineBounds 2026 ([] @ threeTerms))) (Num 1997)
   \<and> js_le (Num 2026) (endYear (getTimelineBounds 2026 ([] @ threeTerms)))
   \<and> getTimelineBounds 2026 [] = \<lparr>startYear = Num 1997, endYear = Num 2026\<rparr>
   \<and> js_le (startYear (getTimelineBounds 2026 ([] @ cargo ''1990-05-01'' ''2030-01-01'' # threeTerms)))
            (startYear (getTimelineBounds 2026 ([] @ threeTerms)))
   \<and> js_le (endYear (getTimelineBounds 2026 ([] @ threeTerms)))
            (endYear (getTimelineBounds 2026 ([] @ cargo ''1990-05-01'' ''2030-01-01'' # threeTerms)))"
proof -
  have v: "\<forall>it\<in>set ([] @ threeTerms). validDates it" by code_simp
  have w: "validDates (cargo ''1990-05-01'' ''2030-01-01'')" by code_simp
  show ?thesis by (rule getTimelineBounds_widens_only[OF v w])
qed

lemma bounds_example:
  "getTimelineBounds 2026 (cargo ''1990-05-01'' ''2030-01-01'' # threeTerms) = \<lparr>startYear = Num 1990, endYear = Num 2030\<rparr>"
  by code_simp

text \<open>
  With a record whose start date does not parse the start year is \<open>NaN\<close>: the bounds
  are stated for intervals.
\<close>

lemma bounds_with_undated_record:
  "getTimelineBounds 2026 [undatedCargo] = \<lparr>startYear = NaN, endYear = Num 2026\<rparr>"
  by code_simp

section \<open>Grid width\<close>

text \<open>
  Claim C4, as worded, fails: the specification adds a left padding of 10 to the canvas
  width, the script does not.  For the years 2000 to 2001 at 18 pixels a month the script
  sets 452, not 462.
\<close>

theorem setCanvasWidth_not_with_left_padding:
  "setCanvasWidth (Num 18) (Num 2000) (Num 2001) = Num 452
   \<and> setCanvasWidth (Num 18) (Num 2000) (Num 2001) \<noteq> Num (specCanvasWidth 2000 2001 18)"
  by (simp add: setCanvasWidth_def totalMonths_def getMonthWidth_def specCanvasWidth_def)

text \<open>
  Claim C4, amended.  The canvas width for a resolved year range is
  \<open>totalMonths * monthWidth + 20\<close> pixels with \<open>totalMonths = (endYear - startYear + 1) * 12\<close>,
  where the month width is the style property when it is a number and 18 otherwise.
\<close>

theorem setCanvasWidth_value:
  "setCanvasWidth (Num w) (Num sy) (Num ey) = Num ((ey - sy + 1) * 12 * w + 20)
   \<and> setCanvasWidth NaN (Num sy) (Num ey) = Num ((ey - sy + 1) * 12 * 18 + 20)"
  by (simp add: setCanvasWidth_def totalMonths_def getMonthWidth_def)

theorem setCanvasWidth_value_witness:
  "setCanvasWidth (Num 18) (Num 2000) (Num 2001) = Num 452"
  using setCanvasWidth_value[of 18 2000 2001] by simp

section \<open>Rendering passes\<close>

lemma renderBar_geometry:
  "seg_start s = Num a \<Longrightarrow> seg_end s = Num e \<Longrightarrow> seg_row s = Some r \<Longrightarrow>
   bar_left (renderBar mode s) = Num (10 + a * 18)
   \<and> bar_width (renderBar mode s) = Num (max 18 (10 + (e + 1) * 18 - (10 + a * 18) - 2))
   \<and> bar_top (renderBar mode s) = Num (6 + int r * (28 + 6))"
  by (simp add: renderBar_def MONTH_PX_def LANE_BAR_H_def STACK_GAP_def rowNum_def Let_def)

lemma renderLane_bars:
  "lane_bars (renderLane title subtitle items mode sy) = map (renderBar mode) (segs (stackOverlaps items sy))"
  by (simp add: renderLane_def Let_def)

lemma bar_it_renderBar: "bar_it (renderBar mode s) = s"
  by (simp add: renderBar_def Let_def)

lemma threeTerms_first:
  "seg_start (segs (stackOverlaps threeTerms (Num 1997)) ! 0) = Num 48
   \<and> seg_end (segs (stackOverlaps threeTerms (Num 1997)) ! 0) = Num 71
   \<and> seg_row (segs (stackOverlaps threeTerms (Num 1997)) ! 0) = Some 0
   \<and> 0 < length (segs (stackOverlaps threeTerms (Num 1997)))"
  by code_simp

lemma laneBars_renderTimeline:
  "laneBars (renderTimeline css cy etype (Some items)) =
     (if items = [] then []
      else map (renderBar (if etype = ''persona'' then ''persona'' else ''institucion''))
               (segs (stackOverlaps items (startYear (getTimelineBounds cy items)))))"
  by (simp add: laneBars_def renderTimeline_def Let_def renderLane_bars)

lemma threeTerms_pass:
  "laneBars (renderTimeline (Num 18) 2026 ''persona'' (Some threeTerms)) ! 0
     = renderBar ''persona'' (segs (stackOverlaps threeTerms (Num 1997)) ! 0)
   \<and> 0 < length (laneBars (renderTimeline (Num 18) 2026 ''persona'' (Some threeTerms)))"
proof -
  have g: "startYear (getTimelineBounds 2026 threeTerms) = Num 1997 \<and> threeTerms \<noteq> []" by code_simp
  with threeTerms_first show ?thesis by (simp add: laneBars_renderTimeline)
qed

text \<open>
  Claim C8, amended.  At the default month width of 18 pixels (where the style value
  and the script's constant \<open>MONTH_PX\<close> agree), every interval placed in a lane, with
  month indices \<open>a\<close> and \<open>e\<close> and row \<open>r\<close>, has the bar geometry
  \<open>left = 10 + a * monthWidthPx\<close>,
  \<open>width = max monthWidthPx (10 + (e + 1) * monthWidthPx - left - 2)\<close> and
  \<open>top = 6 + r * (barHeight + rowGap)\<close>: the width is measured from the right edge of the
  end month, which includes the left padding of 10.  Nothing is stated for other month
  widths.
\<close>

theorem bar_geometry_at_default_width:
  assumes "getMonthWidth css = Num monthWidthPx" and "monthWidthPx = 18"
    and "b \<in> set (laneBars (renderTimeline css cy etype (Some items)))"
    and "seg_start (bar_it b) = Num a" and "seg_end (bar_it b) = Num e"
    and "seg_row (bar_it b) = Some r"
  shows "bar_left b = Num (10 + a * monthWidthPx)
       \<and> bar_width b
           = Num (max monthWidthPx (10 + (e + 1) * monthWidthPx - (10 + a * monthWidthPx) - 2))
       \<and> bar_top b = Num (6 + int r * (LANE_BAR_H + STACK_GAP))"
proof -
  from assms(3) obtain mode s where b: "b = renderBar mode s"
    by (auto simp: laneBars_renderTimeline split: if_splits)
  from assms(4,5,6) have "seg_start s = Num a" "seg_end s = Num e" "seg_row s = Some r"
    by (simp_all only: b bar_it_renderBar)
  from renderBar_geometry[OF this, of mode] show ?thesis
    by (simp add: b assms(2) LANE_BAR_H_def STACK_GAP_def)
qed

theorem bar_geometry_at_default_width_witness:
  "bar_left (laneBars (renderTimeline (Num 18) 2026 ''persona'' (Some threeTerms)) ! 0) = Num 874
   \<and> bar_width (laneBars (renderTimeline (Num 18) 2026 ''persona'' (Some threeTerms)) ! 0) = Num 430
   \<and> bar_top (laneBars (renderTimeline (Num 18) 2026 ''persona'' (Some threeTerms)) ! 0) = Num 6"
proof -
  let ?bs = "laneBars (renderTimeline (Num 18) 2026 ''persona'' (Some threeTerms))"
  have w: "getMonthWidth (Num 18) = Num 18" by (simp add: getMonthWidth_def)
  have m: "?bs ! 0 \<in> set ?bs" using threeTerms_pass by (intro nth_mem) simp
  have b: "?bs ! 0 = renderBar ''persona'' (segs (stackOverlaps threeTerms (Num 1997)) ! 0)"
    using threeTerms_pass by blast
  have s: "seg_start (bar_it (?bs ! 0)) = Num 48" "seg_end (bar_it (?bs ! 0)) = Num 71"
    "seg_row (bar_it (?bs ! 0)) = Some 0"
    using threeTerms_first by (simp_all only: b bar_it_renderBar)
  from bar_geometry_at_default_width[OF w refl m s] show ?thesis
    by (simp add: LANE_BAR_H_def STACK_GAP_def)
qed

text \<open>
  Claim C8, as worded, fails at the default month width already: the specification's
  width formula leaves the left padding out of the end month's right edge and so is 10
  pixels short for every bar longer than one month.  The bar of the interval 2001-01 to
  2002-12 in a window that starts in 1997 is 430 pixels wide, where the formula gives
  420.
\<close>

theorem bar_width_not_as_worded:
  "getMonthWidth (Num 18) = Num 18
   \<and> seg_start (bar_it (laneBars (renderTimeline (Num 18) 2026 ''persona'' (Some threeTerms)) ! 0)) = Num 48
   \<and> seg_end (bar_it (laneBars (renderTimeline (Num 18) 2026 ''persona'' (Some threeTerms)) ! 0)) = Num 71
   \<and> bar_width (laneBars (renderTimeline (Num 18) 2026 ''persona'' (Some threeTerms)) ! 0) = Num 430
   \<and> specBarWidth 48 71 18 = 420"
proof -
  let ?bs = "laneBars (renderTimeline (Num 18) 2026 ''persona'' (Some threeTerms))"
  have g: "getMonthWidth (Num 18) = Num 18" by (simp add: getMonthWidth_def)
  have b: "?bs ! 0 = renderBar ''persona'' (segs (stackOverlaps threeTerms (Num 1997)) ! 0)"
    using threeTerms_pass by blast
  have w: "bar_width (renderBar ''persona'' (segs (stackOverlaps threeTerms (Num 1997)) ! 0)) = Num 430"
    using renderBar_geometry[of "segs (stackOverlaps threeTerms (Num 1997)) ! 0" 48 71 0 "''persona''"] threeTerms_first
    by simp
  have s: "specBarWidth 48 71 18 = 420" by (simp add: specBarWidth_def)
  show ?thesis using threeTerms_first w s g by (simp only: b bar_it_renderBar)
qed

text \<open>
  At another month width the bars stay as they are, since \<open>renderLane\<close> reads the constant
  \<open>MONTH_PX\<close>, while the canvas, which reads the style value, changes.
\<close>

lemma bars_at_another_width:
  "getMonthWidth (Num 36) = Num 36
   \<and> laneBars (renderTimeline (Num 36) 2026 ''persona'' (Some threeTerms))
       = laneBars (renderTimeline (Num 18) 2026 ''persona'' (Some threeTerms))
   \<and> r_canvasWidth (renderTimeline (Num 18) 2026 ''persona'' (Some threeTerms)) = Num 6500
   \<and> r_canvasWidth (renderTimeline (Num 36) 2026 ''persona'' (Some threeTerms)) = Num 12980"
proof -
  have a: "getMonthWidth (Num 36) = Num 36" by (simp add: getMonthWidth_def)
  have b: "laneBars (renderTimeline (Num 36) 2026 ''persona'' (Some threeTerms))
       = laneBars (renderTimeline (Num 18) 2026 ''persona'' (Some threeTerms))"
    by (simp add: laneBars_renderTimeline)
  have c: "r_canvasWidth (renderTimeline (Num 18) 2026 ''persona'' (Some threeTerms)) = Num 6500
   \<and> r_canvasWidth (renderTimeline (Num 36) 2026 ''persona'' (Some threeTerms)) = Num 12980"
    by code_simp
  from a b c show ?thesis by blast
qed

text \<open>
  Claim C9.  Row assignment is independent of the pixel density: two rendering passes
  that differ only in the style property \<open>--month-width\<close> produce the same lane (the same
  bars with the same rows, and the same height from \<open>rowCount\<close>) and the same bounds, and
  the stacking they run on the records, with the start year of their bounds, returns the
  same segments, rows and \<open>rowCount\<close>.  \<open>stackOverlaps\<close> has no month-width argument.
\<close>

theorem rows_independent_of_month_width:
  "r_lane (renderTimeline css1 cy etype selected) = r_lane (renderTimeline css2 cy etype selected)
   \<and> r_bounds (renderTimeline css1 cy etype selected) = r_bounds (renderTimeline css2 cy etype selected)
   \<and> stackOverlaps items (startYear (r_bounds (renderTimeline css1 cy etype (Some items))))
       = stackOverlaps items (startYear (r_bounds (renderTimeline css2 cy etype (Some items))))"
  by (cases selected) (simp_all add: renderTimeline_def Let_def)

lemma month_width_changes_canvas:
  "r_canvasWidth (renderTimeline (Num 18) 2026 ''persona'' (Some threeTerms))
   \<noteq> r_canvasWidth (renderTimeline (Num 36) 2026 ''persona'' (Some threeTerms))"
  by code_simp

lemma segs_from_items:
  assumes "s \<in> set (segs (stackOverlaps items sy))"
  shows "seg_it s \<in> set items
       \<and> seg_start s = monthIndex (parseDate (inicio (seg_it s))) sy
       \<and> seg_end s = monthIndex (parseDate (fin (seg_it s))) sy"
proof -
  let ?ss = "js_sort cmpSeg (map (toSeg sy) items)"
  obtain re where p: "place ?ss [] = (segs (stackOverlaps items sy), re)"
    using stackOverlaps_place by blast
  from place_keeps[OF p] have m: "map seg_start (segs (stackOverlaps items sy)) = map seg_start ?ss"
    "map seg_end (segs (stackOverlaps items sy)) = map seg_end ?ss"
    "map seg_it (segs (stackOverlaps items sy)) = map seg_it ?ss" by simp_all
  have len: "length (segs (stackOverlaps items sy)) = length ?ss" using m(1) by (metis length_map)
  from assms obtain i where i: "i < length (segs (stackOverlaps items sy))" "s = segs (stackOverlaps items sy) ! i"
    by (metis in_set_conv_nth)
  have a: "seg_start s = seg_start (?ss ! i)" using m(1) i len by (metis nth_map)
  have b: "seg_end s = seg_end (?ss ! i)" using m(2) i len by (metis nth_map)
  have c: "seg_it s = seg_it (?ss ! i)" using m(3) i len by (metis nth_map)
  have "?ss ! i \<in> set ?ss" using i len by simp
  then have "?ss ! i \<in> toSeg sy ` set items" by (simp add: set_js_sort)
  then obtain it where it: "it \<in> set items" "?ss ! i = toSeg sy it" by auto
  show ?thesis using a b c it by (simp add: toSeg_def)
qed

lemma monthIndex_invalid: "monthIndex InvalidDate sy = NaN"
  by (simp add: monthIndex_def)

text \<open>
  A date string whose year or month piece is not a number, and the empty string, give
  an invalid date (the empty string has the year piece \<open>0\<close> and no month piece); a year
  written with an exponent or a radix prefix is a number.
\<close>

lemma parseDate_non_numeric:
  "piece (map toNumber (split_dash s)) 0 = DNaN \<or> piece (map toNumber (split_dash s)) 1 = DNaN
   \<Longrightarrow> parseDate s = InvalidDate"
  by (auto simp: parseDate_def Let_def toInteger_def minusOne_def)

lemma parseDate_examples:
  "parseDate [] = InvalidDate \<and> parseDate ''20x0-01-01'' = InvalidDate
   \<and> parseDate ''2020-xx-01'' = InvalidDate \<and> parseDate ''2020'' = InvalidDate
   \<and> parseDate ''2e3-01-01'' = parseDate ''2000-01-01''
   \<and> parseDate ''0x7E4-01-01'' = parseDate ''2020-01-01''
   \<and> parseDate ''2000-01-01'' \<noteq> InvalidDate"
  by code_simp

lemma bar_left_NaN: "seg_start s = NaN \<Longrightarrow> bar_left (renderBar mode s) = NaN"
  by (simp add: renderBar_def Let_def)

text \<open>
  A segment made from a date that does not parse has the month index \<open>NaN\<close>, and its bar
  the left position \<open>NaN\<close>.
\<close>

lemma invalid_dates_give_NaN:
  assumes "s \<in> set (segs (stackOverlaps items sy))"
  shows "(parseDate (inicio (seg_it s)) = InvalidDate \<longrightarrow>
            seg_start s = NaN \<and> bar_left (renderBar mode s) = NaN)
       \<and> (parseDate (fin (seg_it s)) = InvalidDate \<longrightarrow> seg_end s = NaN)"
  using segs_from_items[OF assms] by (auto simp: monthIndex_invalid bar_left_NaN)

section \<open>Rendering passes on the payload\<close>

lemma boundsLoop_dated:
  "\<forall>p\<in>set cs. dated p \<Longrightarrow>
   boundsLoop cs acc =
     Inr (foldl (\<lambda>(minYear, maxYear) it.
                   (js_min minYear (getFullYear (parseDate (inicio it))),
                    js_max maxYear (getFullYear (parseDate (fin it)))))
                acc (map withDates cs))"
proof (induction cs arbitrary: acc)
  case Nil
  then show ?case by simp
next
  case (Cons p ps)
  obtain mn mx where acc: "acc = (mn, mx)" by (cases acc)
  from Cons.prems obtain s f where sf: "p_inicio p = Some s" "p_fin p = Some f"
    by (auto simp: dated_def)
  have rest: "\<forall>p\<in>set ps. dated p" using Cons.prems by simp
  show ?case
    by (simp add: acc sf parseDateField_def withDates_def Cons.IH[OF rest])
qed

lemma boundsLoop_missing:
  "\<exists>p\<in>set cs. \<not> dated p \<Longrightarrow> boundsLoop cs acc = Inl TypeError"
proof (induction cs arbitrary: acc)
  case Nil
  then show ?case by simp
next
  case (Cons p ps)
  obtain mn mx where acc: "acc = (mn, mx)" by (cases acc)
  show ?case
  proof (cases "dated p")
    case True
    then obtain s f where sf: "p_inicio p = Some s" "p_fin p = Some f" by (auto simp: dated_def)
    from Cons.prems True have "\<exists>p\<in>set ps. \<not> dated p" by auto
    from Cons.IH[OF this] show ?thesis by (simp add: acc sf parseDateField_def)
  next
    case False
    then show ?thesis
      by (cases "p_inicio p"; cases "p_fin p") (auto simp: acc dated_def parseDateField_def)
  qed
qed

lemma getTimelineBoundsOn_dated:
  "\<forall>p\<in>set cs. dated p \<Longrightarrow>
   getTimelineBoundsOn cy cs = Inr (getTimelineBounds cy (map withDates cs))"
  by (simp add: getTimelineBoundsOn_def getTimelineBounds_def boundsLoop_dated split: prod.splits)

lemma getTimelineBoundsOn_missing:
  "\<exists>p\<in>set cs. \<not> dated p \<Longrightarrow> getTimelineBoundsOn cy cs = Inl TypeError"
proof -
  assume m: "\<exists>p\<in>set cs. \<not> dated p"
  then have "cs \<noteq> []" by auto
  with boundsLoop_missing[OF m] show ?thesis by (simp add: getTimelineBoundsOn_def)
qed

lemma bars_are_the_records:
  "mset (map (\<lambda>b. seg_it (bar_it b)) (laneBars (renderTimeline css cy etype (Some items)))) = mset items"
proof (cases "items = []")
  case True
  then show ?thesis by (simp add: laneBars_renderTimeline)
next
  case False
  let ?mode = "if etype = ''persona'' then ''persona'' else ''institucion''"
  let ?st = "stackOverlaps items (startYear (getTimelineBounds cy items))"
  have lb: "laneBars (renderTimeline css cy etype (Some items)) = map (renderBar ?mode) (segs ?st)"
    using False by (simp add: laneBars_renderTimeline)
  have "map (\<lambda>b. seg_it (bar_it b)) (map (renderBar ?mode) (segs ?st)) = map seg_it (segs ?st)"
    by (simp add: bar_it_renderBar o_def)
  then show ?thesis by (simp only: lb stackOverlaps_keeps_items)
qed

lemma undated_facts:
  "dated undatedPayload \<and> withDates undatedPayload = undatedCargo \<and> \<not> dated openEndedPayload"
  by code_simp

text \<open>
  Claim C3, amended.  A record whose start or end date is unparseable is not excluded
  before layout: when every record of the selected entity has strings as its start and
  end date, whatever they spell, the rendering pass raises nothing and draws one bar
  per record, so every record reaches \<open>stackOverlaps\<close>.  When some record has a start or an
  end date that is no string, the pass propagates a \<open>TypeError\<close>.
\<close>

theorem no_record_is_excluded:
  "((\<forall>p\<in>set cargos. dated p) \<longrightarrow>
      (\<exists>r. renderTimelineOn css cy etype (Some cargos) = Inr r
           \<and> mset (map (\<lambda>b. seg_it (bar_it b)) (laneBars r)) = mset (map withDates cargos)))
   \<and> ((\<exists>p\<in>set cargos. \<not> dated p) \<longrightarrow>
        renderTimelineOn css cy etype (Some cargos) = Inl TypeError)"
proof (intro conjI impI)
  assume "\<forall>p\<in>set cargos. dated p"
  then have "renderTimelineOn css cy etype (Some cargos)
             = Inr (renderTimeline css cy etype (Some (map withDates cargos)))"
    by (simp add: renderTimelineOn_def getTimelineBoundsOn_dated)
  with bars_are_the_records[of css cy etype "map withDates cargos"]
  show "\<exists>r. renderTimelineOn css cy etype (Some cargos) = Inr r
           \<and> mset (map (\<lambda>b. seg_it (bar_it b)) (laneBars r)) = mset (map withDates cargos)"
    by blast
next
  assume "\<exists>p\<in>set cargos. \<not> dated p"
  then show "renderTimelineOn css cy etype (Some cargos) = Inl TypeError"
    by (simp add: renderTimelineOn_def getTimelineBoundsOn_missing)
qed

theorem no_record_is_excluded_witness:
  "(\<exists>r. renderTimelineOn (Num 18) 2026 ''persona'' (Some [undatedPayload]) = Inr r
        \<and> mset (map (\<lambda>b. seg_it (bar_it b)) (laneBars r)) = mset [undatedCargo])
   \<and> renderTimelineOn (Num 18) 2026 ''persona'' (Some [undatedPayload, openEndedPayload]) = Inl TypeError"
proof -
  have d: "\<forall>p\<in>set [undatedPayload]. dated p" using undated_facts by simp
  have m: "\<exists>p\<in>set [undatedPayload, openEndedPayload]. \<not> dated p" using undated_facts by simp
  have w: "map withDates [undatedPayload] = [undatedCargo]" using undated_facts by simp
  note a = no_record_is_excluded[of "[undatedPayload]" "Num 18" 2026 "''persona''"]
  note b = no_record_is_excluded[of "[undatedPayload, openEndedPayload]" "Num 18" 2026 "''persona''"]
  from a d have one: "\<exists>r. renderTimelineOn (Num 18) 2026 ''persona'' (Some [undatedPayload]) = Inr r
        \<and> mset (map (\<lambda>b. seg_it (bar_it b)) (laneBars r)) = mset (map withDates [undatedPayload])"
    by blast
  from b m have two: "renderTimelineOn (Num 18) 2026 ''persona'' (Some [undatedPayload, openEndedPayload]) = Inl TypeError"
    by blast
  from one two show ?thesis by (simp only: w) 
qed

text \<open>
  Claim C3, as worded, fails in both halves.  A record with the empty string as its
  start date is not dropped: the rendering pass on that single record draws one bar,
  made from that record, and the stacking opens a row for it.  And a record without an
  end date makes the rendering pass end with a \<open>TypeError\<close>.
\<close>

theorem undated_record_is_drawn_and_missing_date_throws:
  "p_inicio undatedPayload = Some []
   \<and> parseDate [] = InvalidDate
   \<and> renderTimelineOn (Num 18) 2026 ''persona'' (Some [undatedPayload])
       = Inr (renderTimeline (Num 18) 2026 ''persona'' (Some [undatedCargo]))
   \<and> length (laneBars (renderTimeline (Num 18) 2026 ''persona'' (Some [undatedCargo]))) = 1
   \<and> seg_it (bar_it (laneBars (renderTimeline (Num 18) 2026 ''persona'' (Some [undatedCargo])) ! 0)) = undatedCargo
   \<and> rowCount (stackOverlaps [undatedCargo] (startYear (getTimelineBounds 2026 [undatedCargo]))) = 1
   \<and> p_fin openEndedPayload = None
   \<and> renderTimelineOn (Num 18) 2026 ''persona'' (Some [openEndedPayload]) = Inl TypeError"
proof -
  have a: "p_inicio undatedPayload = Some [] \<and> parseDate [] = InvalidDate
           \<and> p_fin openEndedPayload = None" by code_simp
  have b: "renderTimelineOn (Num 18) 2026 ''persona'' (Some [undatedPayload])
       = Inr (renderTimeline (Num 18) 2026 ''persona'' (Some [undatedCargo]))"
    using undated_facts by (simp add: renderTimelineOn_def getTimelineBoundsOn_dated)
  have c: "length (laneBars (renderTimeline (Num 18) 2026 ''persona'' (Some [undatedCargo]))) = 1
   \<and> seg_it (bar_it (laneBars (renderTimeline (Num 18) 2026 ''persona'' (Some [undatedCargo])) ! 0)) = undatedCargo
   \<and> rowCount (stackOverlaps [undatedCargo] (startYear (getTimelineBounds 2026 [undatedCargo]))) = 1"
    by code_simp
  have d: "renderTimelineOn (Num 18) 2026 ''persona'' (Some [openEndedPayload]) = Inl TypeError"
    using undated_facts by (simp add: renderTimelineOn_def getTimelineBoundsOn_missing)
  from a b c d show ?thesis by blast
qed

section \<open>Markup\<close>

lemma escapeChar_plain: "c' \<in> set (escapeChar c) \<Longrightarrow> \<not> is_markup c'"
  by (auto simp: escapeChar_def is_markup_def split: if_splits)

lemma escapeHtml_plain: "c \<in> set (escapeHtml s) \<Longrightarrow> \<not> is_markup c"
  by (auto simp: escapeHtml_def dest: escapeChar_plain)

lemma skeleton_escapeHtml: "skeleton (escapeHtml s) = []"
  unfolding skeleton_def by (simp add: filter_empty_conv escapeHtml_plain)

lemma skeleton_append: "skeleton (a @ b) = skeleton a @ skeleton b"
  by (simp add: skeleton_def)

lemma escapeChar_amp:
  "i < length (escapeChar c) \<Longrightarrow> escapeChar c ! i = CHR ''&'' \<Longrightarrow> i = 0 \<and> escapeChar c \<in> set entities"
  by (auto simp: escapeChar_def entities_def nth_Cons' less_Suc_eq split: if_splits)

lemma escapeHtml_amp:
  "i < length (escapeHtml s) \<Longrightarrow> escapeHtml s ! i = CHR ''&'' \<Longrightarrow> entityAt (drop i (escapeHtml s))"
proof (induction s arbitrary: i)
  case Nil
  then show ?case by (simp add: escapeHtml_def)
next
  case (Cons c cs)
  have eq: "escapeHtml (c # cs) = escapeChar c @ escapeHtml cs" by (simp add: escapeHtml_def)
  show ?case
  proof (cases "i < length (escapeChar c)")
    case True
    with Cons.prems(2) have "escapeChar c ! i = CHR ''&''" by (simp add: eq nth_append)
    from escapeChar_amp[OF True this] have i0: "i = 0" and e: "escapeChar c \<in> set entities" by simp_all
    have "prefix (escapeChar c) (drop i (escapeHtml (c # cs)))" by (simp add: i0 eq)
    with e show ?thesis unfolding entityAt_def list_ex_iff by blast
  next
    case False
    with Cons.prems have "i - length (escapeChar c) < length (escapeHtml cs)"
      "escapeHtml cs ! (i - length (escapeChar c)) = CHR ''&''"
      by (simp_all add: eq nth_append)
    from Cons.IH[OF this] False show ?thesis by (simp add: eq)
  qed
qed

lemma digit_plain: "(d::nat) < 10 \<Longrightarrow> \<not> is_markup (char_of (48 + d))"
proof -
  assume "d < 10"
  then have "d \<in> {0,1,2,3,4,5,6,7,8,9}" by auto
  then show ?thesis by (auto simp: is_markup_def char_of_def)
qed

lemma skeleton_Cons: "skeleton (c # cs) = (if is_markup c then c # skeleton cs else skeleton cs)"
  by (simp add: skeleton_def)

lemma skeleton_show_nat: "skeleton (show_nat n) = []"
proof (induction n rule: show_nat.induct)
  case (1 n)
  show ?case
  proof (cases "n < 10")
    case True
    then show ?thesis
      by (subst show_nat.simps) (simp add: skeleton_def digit_plain)
  next
    case False
    have "n mod 10 < 10" by simp
    then have "\<not> is_markup (char_of (48 + n mod 10))" by (rule digit_plain)
    with 1[OF False] False show ?thesis
      by (subst show_nat.simps) (simp add: skeleton_def)
  qed
qed

lemma skeleton_show_num: "skeleton (show_num x) = []"
proof (cases x)
  case NaN
  then show ?thesis by (simp add: show_num_def skeleton_def is_markup_def)
next
  case (Num i)
  show ?thesis by (simp add: Num show_num_def skeleton_Cons is_markup_def skeleton_show_nat)
qed

lemma skeleton_months: "s \<in> set months \<Longrightarrow> skeleton s = []"
  by (auto simp: months_def skeleton_def is_markup_def)

lemma skeleton_monthName: "skeleton (monthName x) = []"
proof (cases x)
  case NaN
  then show ?thesis by (simp add: monthName_def skeleton_def is_markup_def)
next
  case (Num m)
  show ?thesis
  proof (cases "0 \<le> m \<and> m < 12")
    case True
    have "length months = 12" by (simp add: months_def)
    with True have "nat m < length months" by linarith
    then have "months ! nat m \<in> set months" by (rule nth_mem)
    with Num True show ?thesis by (simp add: monthName_def skeleton_months)
  next
    case False
    then have "monthName x = ''undefined''" using Num by (auto simp: monthName_def)
    then show ?thesis by (simp add: skeleton_def is_markup_def)
  qed
qed

lemma skeleton_formatMY: "skeleton (formatMY s) = []"
proof -
  show ?thesis
    by (simp add: formatMY_def Let_def skeleton_append skeleton_Cons is_markup_def
          skeleton_monthName skeleton_show_num)
qed

lemma skeleton_barHtml: "skeleton (barHtml mode it) = skeleton (barHtml mode' it')"
  by (simp only: barHtml_def skeleton_append skeleton_escapeHtml)

lemma skeleton_topicPill: "skeleton (topicPill tema) = skeleton (topicPill [])"
  by (simp only: topicPill_def skeleton_append skeleton_escapeHtml)

lemma skeleton_pills:
  "skeleton (concat (map topicPill tms)) = skeleton (concat (map topicPill (map (\<lambda>_. []) tms)))"
proof (induction tms)
  case Nil
  then show ?case by simp
next
  case (Cons t ts)
  have "skeleton (concat (map topicPill (t # ts))) = skeleton (topicPill t) @ skeleton (concat (map topicPill ts))"
    by (simp add: skeleton_append)
  also have "\<dots> = skeleton (topicPill []) @ skeleton (concat (map topicPill (map (\<lambda>_. []) ts)))"
    by (simp only: Cons.IH skeleton_topicPill[of t])
  also have "\<dots> = skeleton (concat (map topicPill (map (\<lambda>_. []) (t # ts))))"
    by (simp add: skeleton_append)
  finally show ?case .
qed

lemma skeleton_topicsHtml: "skeleton (topicsHtml tms) = skeleton (topicsHtml (map (\<lambda>_. []) tms))"
proof (cases "tms = []")
  case True
  then show ?thesis by simp
next
  case False
  then have ne: "map (\<lambda>_. []) tms \<noteq> ([] :: string list)" by simp
  show ?thesis
    by (simp only: topicsHtml_def False ne if_True not_False_eq_True skeleton_append skeleton_pills[of tms])
qed

lemma skeleton_buildTooltipContent:
  "skeleton (buildTooltipContent title sub niv ini fi tms)
   = skeleton (buildTooltipContent title' sub' niv' ini' fi' (map (\<lambda>_. []) tms))"
  by (simp only: buildTooltipContent_def skeleton_append skeleton_escapeHtml skeleton_formatMY
        skeleton_topicsHtml[of tms])

text \<open>
  Claim C10.  For every string \<open>s\<close>, \<open>escapeHtml s\<close> holds none of the characters \<open><\<close>, \<open>>\<close>,
  double quote and single quote, and every \<open>&\<close> in it starts one of the five entities.
  Every label and tag of a record enters the bar markup and the tooltip markup through
  \<open>escapeHtml\<close>, and the dates through \<open>formatMY\<close>, so the record's text cannot add markup:
  the bars of any two records, in any two modes, have the same skeleton, and the tooltip
  of a record has the skeleton of a tooltip with any other texts and dates and as many
  (empty) tags.
\<close>

theorem escapeHtml_blocks_markup:
  "(\<forall>c\<in>set (escapeHtml s). c \<noteq> CHR ''<'' \<and> c \<noteq> CHR ''>'' \<and> c \<noteq> CHR 0x22 \<and> c \<noteq> CHR 0x27)
   \<and> (\<forall>i<length (escapeHtml s). escapeHtml s ! i = CHR ''&'' \<longrightarrow> entityAt (drop i (escapeHtml s)))
   \<and> skeleton (barHtml mode it) = skeleton (barHtml mode' it')
   \<and> skeleton (buildTooltipContent title sub niv ini fi tms)
       = skeleton (buildTooltipContent title' sub' niv' ini' fi' (map (\<lambda>_. []) tms))"
proof -
  have a: "\<forall>c\<in>set (escapeHtml s). c \<noteq> CHR ''<'' \<and> c \<noteq> CHR ''>'' \<and> c \<noteq> CHR 0x22 \<and> c \<noteq> CHR 0x27"
    using escapeHtml_plain[of _ s] by (auto simp: is_markup_def)
  have b: "\<forall>i<length (escapeHtml s). escapeHtml s ! i = CHR ''&'' \<longrightarrow> entityAt (drop i (escapeHtml s))"
    using escapeHtml_amp by blast
  from a b skeleton_barHtml[of mode it mode' it']
    skeleton_buildTooltipContent[of title sub niv ini fi tms title' sub' niv' ini' fi']
  show ?thesis by blast
qed

lemma escape_example:
  "escapeHtml ''<b>Tom & Jerry</b>'' = ''&lt;b&gt;Tom &amp; Jerry&lt;/b&gt;''"
  by code_simp

theorem escapeHtml_blocks_markup_witness:
  "entityAt (drop 13 (escapeHtml ''<b>Tom & Jerry</b>''))
   \<and> skeleton (barHtml ''persona'' (cargo ''2001-01-01'' ''2002-12-01''))
       = skeleton (barHtml ''institucion'' undatedCargo)"
proof -
  have l: "13 < length (escapeHtml ''<b>Tom & Jerry</b>'')" by (simp add: escape_example)
  have c: "escapeHtml ''<b>Tom & Jerry</b>'' ! 13 = CHR ''&''" by (simp add: escape_example)
  from escapeHtml_blocks_markup[of "''<b>Tom & Jerry</b>''" "''persona''"
      "cargo ''2001-01-01'' ''2002-12-01''" "''institucion''" undatedCargo] l c
  show ?thesis by blast
qed

section \<open>The tooltip state machine\<close>

lemma last_hideTipStates: "hideTipStates t \<noteq> [] \<and> last (hideTipStates t) = hideTip t"
  by (simp add: hideTipStates_def hideTip_def)

lemma last_showTipStates: "showTipStates tipOf b t \<noteq> [] \<and> last (showTipStates tipOf b t) = showTip tipOf b t"
  by (simp add: showTipStates_def showTip_def)

lemma step_show:
  "step tipOf t (MouseEnter b) = showTip tipOf b t"
  "step tipOf t (Focus b) = showTip tipOf b t"
  "step tipOf t (BarKeyDown b ''Enter'') = showTip tipOf b t"
  "step tipOf t (BarKeyDown b '' '') = showTip tipOf b t"
  by (simp_all add: step_def last_showTipStates)

lemma step_click:
  "step tipOf t (Click b) = (if activeBar t = Some b \<and> shown t then hideTip t else showTip tipOf b t)"
  by (simp add: step_def last_showTipStates last_hideTipStates)

lemma shown_schedule [simp]: "shown (scheduleTooltipPosition t) = shown t"
  by (simp add: scheduleTooltipPosition_def requestAnimationFrame_def Let_def)

lemma activeBar_schedule [simp]: "activeBar (scheduleTooltipPosition t) = activeBar t"
  by (simp add: scheduleTooltipPosition_def requestAnimationFrame_def Let_def)

lemma showTip_shown: "shown (showTip tipOf b t) \<and> activeBar (showTip tipOf b t) = Some b"
  by (simp add: showTip_def)

lemma hideTip_hidden: "\<not> shown (hideTip t) \<and> activeBar (hideTip t) = None"
  by (simp add: hideTip_def)

lemma showTipStates_shown: "shown t \<Longrightarrow> u \<in> set (showTipStates tipOf b t) \<Longrightarrow> shown u"
  by (auto simp: showTipStates_def)

lemma states_request_other:
  "shown t \<Longrightarrow> activeBar t = Some a \<Longrightarrow> b \<noteq> a \<Longrightarrow> ev \<in> set (requests b) \<Longrightarrow>
   states tipOf t ev = showTipStates tipOf b t"
  by (auto simp: requests_def)

lemma shownOnFirst_state: "shown shownOnFirst \<and> activeBar shownOnFirst = Some 0"
  by (simp add: shownOnFirst_def step_show showTip_shown)

text \<open>
  Claim C6.  While the tooltip is shown on a bar \<open>a\<close>: every activation of another bar
  \<open>b\<close> (hover, focus, click, Enter or space) ends with the tooltip shown on \<open>b\<close>, and every
  state its handler passes through is shown, so there is no hidden state in between;
  an activation of \<open>a\<close> itself ends hidden exactly when it is the click, and hover, focus
  and the keys leave the tooltip shown on \<open>a\<close>.
\<close>

theorem tooltip_switch_and_toggle:
  assumes "shown t" and "activeBar t = Some a"
  shows "(\<forall>ev\<in>set (requests b). b \<noteq> a \<longrightarrow>
            (\<forall>u\<in>set (states tipOf t ev). shown u)
            \<and> shown (step tipOf t ev) \<and> activeBar (step tipOf t ev) = Some b)
       \<and> (\<forall>ev\<in>set (requests a). (\<not> shown (step tipOf t ev)) = (ev = Click a))
       \<and> (\<forall>ev\<in>set (requests a). ev \<noteq> Click a \<longrightarrow>
            shown (step tipOf t ev) \<and> activeBar (step tipOf t ev) = Some a)
       \<and> activeBar (step tipOf t (Click a)) = None"
proof -
  have one: "(\<forall>u\<in>set (states tipOf t ev). shown u)
            \<and> shown (step tipOf t ev) \<and> activeBar (step tipOf t ev) = Some b"
    if "ev \<in> set (requests b)" "b \<noteq> a" for ev
  proof -
    have st: "states tipOf t ev = showTipStates tipOf b t"
      using states_request_other[OF assms that(2,1)] .
    have "step tipOf t ev = showTip tipOf b t"
      unfolding step_def st by (simp add: last_showTipStates)
    with st showTipStates_shown[OF assms(1)] showTip_shown[of tipOf b t] show ?thesis by auto
  qed
  have click: "step tipOf t (Click a) = hideTip t" using assms by (simp add: step_click)
  have other: "step tipOf t ev = showTip tipOf a t" if "ev \<in> set (requests a)" "ev \<noteq> Click a" for ev
    using that by (auto simp: requests_def step_show)
  have two: "(\<not> shown (step tipOf t ev)) = (ev = Click a)" if "ev \<in> set (requests a)" for ev
  proof (cases "ev = Click a")
    case True
    with click hideTip_hidden[of t] show ?thesis by simp
  next
    case False
    with other[OF that False] showTip_shown[of tipOf a t] show ?thesis by simp
  qed
  have three: "shown (step tipOf t ev) \<and> activeBar (step tipOf t ev) = Some a"
    if "ev \<in> set (requests a)" "ev \<noteq> Click a" for ev
    using other[OF that] showTip_shown[of tipOf a t] by simp
  have four: "activeBar (step tipOf t (Click a)) = None" using click hideTip_hidden[of t] by simp
  from one two three four show ?thesis by blast
qed

theorem tooltip_switch_and_toggle_witness:
  "shown (step (\<lambda>b. []) shownOnFirst (Click 1))
   \<and> activeBar (step (\<lambda>b. []) shownOnFirst (Click 1)) = Some 1
   \<and> \<not> shown (step (\<lambda>b. []) shownOnFirst (Click 0))
   \<and> shown (step (\<lambda>b. []) shownOnFirst (MouseEnter 0))
   \<and> activeBar (step (\<lambda>b. []) shownOnFirst (MouseEnter 0)) = Some 0"
proof -
  have s: "shown shownOnFirst" and a: "activeBar shownOnFirst = Some 0"
    using shownOnFirst_state by simp_all
  have r1: "Click 1 \<in> set (requests 1)" and r0: "Click 0 \<in> set (requests 0)"
    and r2: "MouseEnter 0 \<in> set (requests 0)" by (simp_all add: requests_def)
  have ne: "(1::nat) \<noteq> 0" and ne2: "MouseEnter 0 \<noteq> Click 0" by simp_all
  note other = tooltip_switch_and_toggle[OF s a, of 1 "\<lambda>b. []"]
  note same = tooltip_switch_and_toggle[OF s a, of 0 "\<lambda>b. []"]
  from other r1 ne have one: "shown (step (\<lambda>b. []) shownOnFirst (Click 1))
     \<and> activeBar (step (\<lambda>b. []) shownOnFirst (Click 1)) = Some 1" by blast
  from same r0 have two: "\<not> shown (step (\<lambda>b. []) shownOnFirst (Click 0))" by blast
  from same r2 ne2 have three: "shown (step (\<lambda>b. []) shownOnFirst (MouseEnter 0))
     \<and> activeBar (step (\<lambda>b. []) shownOnFirst (MouseEnter 0)) = Some 0" by blast
  from one two three show ?thesis by blast
qed

lemma oneFrame_same: "rafId u = rafId t \<Longrightarrow> pending u = pending t \<Longrightarrow> oneFrame u = oneFrame t"
  by (simp add: oneFrame_def split: option.splits)

lemma hideTip_frames [simp]: "rafId (hideTip t) = rafId t" "pending (hideTip t) = pending t"
  by (simp_all add: hideTip_def)

lemma update_frames [simp]:
  "rafId (updateTooltipPosition p b r t) = rafId t"
  "pending (updateTooltipPosition p b r t) = pending t"
  by (simp_all add: updateTooltipPosition_def Let_def)

lemma oneFrame_schedule: "oneFrame t \<Longrightarrow> oneFrame (scheduleTooltipPosition t)"
  by (auto simp: oneFrame_def scheduleTooltipPosition_def requestAnimationFrame_def truthy_def Let_def
           split: option.splits)

lemma oneFrame_hideTip: "oneFrame t \<Longrightarrow> oneFrame (hideTip t)"
  by (simp add: oneFrame_same[of "hideTip t" t])

lemma oneFrame_showTip: "oneFrame t \<Longrightarrow> oneFrame (showTip tipOf b t)"
  unfolding showTip_def by (rule oneFrame_schedule) (simp add: oneFrame_def split: option.splits)

lemma schedule_noop: "truthy (rafId t) \<Longrightarrow> scheduleTooltipPosition t = t"
  by (simp add: scheduleTooltipPosition_def)

lemma runFrames_clear:
  "pending t = [] \<Longrightarrow> u \<in> set (runFrames p b r hs t) \<Longrightarrow> rafId u = None \<and> pending u = []"
proof (induction hs arbitrary: t)
  case Nil
  then show ?case by simp
next
  case (Cons h hs)
  let ?t1 = "t\<lparr>rafId := None\<rparr>"
  let ?t2 = "updateTooltipPosition p b r ?t1"
  from Cons.prems(2) consider "u = ?t1" | "u = ?t2" | "u \<in> set (runFrames p b r hs ?t2)"
    by (auto simp: Let_def)
  then show ?case
  proof cases
    case 1
    with Cons.prems(1) show ?thesis by simp
  next
    case 2
    with Cons.prems(1) show ?thesis by simp
  next
    case 3
    have "pending ?t2 = []" using Cons.prems(1) by simp
    from Cons.IH[OF this 3] show ?thesis .
  qed
qed

lemma step_frame:
  assumes "oneFrame t"
  shows "rafId (step tipOf t (AnimationFrame p b r)) = None
       \<and> pending (step tipOf t (AnimationFrame p b r)) = []"
proof (cases "pending t")
  case Nil
  with assms have "rafId t = None" by (auto simp: oneFrame_def split: option.splits)
  with Nil show ?thesis by (simp add: step_def)
next
  case (Cons h hs)
  let ?t0 = "t\<lparr>pending := []\<rparr>"
  have ne: "runFrames p b r (pending t) ?t0 \<noteq> []" using Cons by (simp add: Let_def)
  then have st: "step tipOf t (AnimationFrame p b r) = last (runFrames p b r (pending t) ?t0)"
    by (simp add: step_def)
  have mem: "last (runFrames p b r (pending t) ?t0) \<in> set (runFrames p b r (pending t) ?t0)"
    using ne by (rule last_in_set)
  have "pending ?t0 = []" by simp
  from runFrames_clear[OF this mem] show ?thesis by (simp only: st)
qed

lemma step_other:
  "step tipOf t (MouseLeave b) = hideTip t"
  "step tipOf t (Blur b) = hideTip t"
  "step tipOf t Rerender = hideTip t"
  "step tipOf t (DocKeyDown k) = (if k = ''Escape'' then hideTip t else t)"
  "step tipOf t (PointerDown isBar) = (if shown t \<and> \<not> isBar then hideTip t else t)"
  "step tipOf t Scroll = scheduleTooltipPosition t"
  "step tipOf t Resize = scheduleTooltipPosition t"
  "step tipOf t (BarKeyDown b k) =
     (if k = ''Enter'' \<or> k = '' '' then showTip tipOf b t
      else if k = ''Escape'' then hideTip t else t)"
  by (simp_all add: step_def last_showTipStates last_hideTipStates)

lemma oneFrame_step: "oneFrame t \<Longrightarrow> oneFrame (step tipOf t ev)"
proof (cases ev)
  case (AnimationFrame p b r)
  assume "oneFrame t"
  from step_frame[OF this, of tipOf p b r] AnimationFrame show ?thesis by (simp add: oneFrame_def)
qed (simp_all add: step_show step_click step_other oneFrame_hideTip oneFrame_showTip oneFrame_schedule)

lemma oneFrame_run: "oneFrame t \<Longrightarrow> oneFrame (run tipOf t evs)"
  unfolding run_def by (induction evs arbitrary: t) (simp_all add: oneFrame_step)

text \<open>
  Claim C7.  At most one position recomputation is pending at any time.  From a start
  with no frame requested, after any sequence of events: at most one callback waits;
  \<open>rafId\<close> is set exactly when one waits; while it is set, a scroll or a resize changes
  nothing, so it requests nothing more; and when the browser runs the callbacks,
  \<open>rafId\<close> is cleared and none waits.
\<close>

theorem at_most_one_frame_pending:
  assumes "rafId t0 = None" and "pending t0 = []"
  shows "length (pending (run tipOf t0 evs)) \<le> 1
       \<and> truthy (rafId (run tipOf t0 evs)) = (pending (run tipOf t0 evs) \<noteq> [])
       \<and> (truthy (rafId (run tipOf t0 evs)) \<longrightarrow>
            step tipOf (run tipOf t0 evs) Scroll = run tipOf t0 evs
            \<and> step tipOf (run tipOf t0 evs) Resize = run tipOf t0 evs)
       \<and> rafId (step tipOf (run tipOf t0 evs) (AnimationFrame p b r)) = None
       \<and> pending (step tipOf (run tipOf t0 evs) (AnimationFrame p b r)) = []"
proof -
  have "oneFrame t0" using assms by (simp add: oneFrame_def)
  then have inv: "oneFrame (run tipOf t0 evs)" by (rule oneFrame_run)
  then have a: "length (pending (run tipOf t0 evs)) \<le> 1"
    and b: "truthy (rafId (run tipOf t0 evs)) = (pending (run tipOf t0 evs) \<noteq> [])"
    by (auto simp: oneFrame_def truthy_def split: option.splits)
  have c: "truthy (rafId (run tipOf t0 evs)) \<longrightarrow>
            step tipOf (run tipOf t0 evs) Scroll = run tipOf t0 evs
            \<and> step tipOf (run tipOf t0 evs) Resize = run tipOf t0 evs"
    by (simp add: step_other schedule_noop)
  from a b c step_frame[OF inv, of tipOf p b r] show ?thesis by blast
qed

lemma demo_run:
  "rafId (run (\<lambda>b. []) idleTooltip [MouseEnter 0, Scroll, Resize, Click 1]) = Some 1
   \<and> pending (run (\<lambda>b. []) idleTooltip [MouseEnter 0, Scroll, Resize, Click 1]) = [1]"
  by code_simp

theorem at_most_one_frame_pending_witness:
  "pending (run (\<lambda>b. []) idleTooltip [MouseEnter 0, Scroll, Resize, Click 1]) = [1]
   \<and> step (\<lambda>b. []) (run (\<lambda>b. []) idleTooltip [MouseEnter 0, Scroll, Resize, Click 1]) Scroll
       = run (\<lambda>b. []) idleTooltip [MouseEnter 0, Scroll, Resize, Click 1]
   \<and> rafId (step (\<lambda>b. []) (run (\<lambda>b. []) idleTooltip [MouseEnter 0, Scroll, Resize, Click 1])
              (AnimationFrame \<lparr>rc_left = 0, rc_top = 0, rc_right = 800, rc_bottom = 400\<rparr>
                              \<lparr>rc_left = 100, rc_top = 50, rc_right = 300, rc_bottom = 78\<rparr>
                              \<lparr>rc_left = 0, rc_top = 0, rc_right = 200, rc_bottom = 120\<rparr>)) = None"
proof -
  let ?t = "run (\<lambda>b. []) idleTooltip [MouseEnter 0, Scroll, Resize, Click 1]"
  have i: "rafId idleTooltip = None" "pending idleTooltip = []" by (simp_all add: idleTooltip_def)
  have r: "rafId ?t = Some 1" and q: "pending ?t = [1]" using demo_run by blast+
  have t: "truthy (rafId ?t)" by (simp only: r) (simp add: truthy_def)
  note th = at_most_one_frame_pending[OF i, of "\<lambda>b. []" "[MouseEnter 0, Scroll, Resize, Click 1]"
      "\<lparr>rc_left = 0, rc_top = 0, rc_right = 800, rc_bottom = 400\<rparr>"
      "\<lparr>rc_left = 100, rc_top = 50, rc_right = 300, rc_bottom = 78\<rparr>"
      "\<lparr>rc_left = 0, rc_top = 0, rc_right = 200, rc_bottom = 120\<rparr>"]
  from th t have noop: "step (\<lambda>b. []) ?t Scroll = ?t" by blast
  from th have fr: "rafId (step (\<lambda>b. []) ?t
              (AnimationFrame \<lparr>rc_left = 0, rc_top = 0, rc_right = 800, rc_bottom = 400\<rparr>
                              \<lparr>rc_left = 100, rc_top = 50, rc_right = 300, rc_bottom = 78\<rparr>
                              \<lparr>rc_left = 0, rc_top = 0, rc_right = 200, rc_bottom = 120\<rparr>)) = None"
    by blast
  from q noop fr show ?thesis by blast
qed

end
